theory Spec2Isabelle
  imports Main "HOL-Library.Sublist" "HOL-Library.Char_ord" "HOL-Library.List_Lexorder"
begin

section \<open>Python primitives used by the scanner\<close>

text \<open>
  Strings are lists of 8-bit characters; lists of lines are lists of strings.
  Every place where the Python source can raise is a branch returning \<open>Inl\<close>.
\<close>

datatype py_error = IndexError | ValueError | FileNotFoundError

text \<open>\<^verbatim>\<open>s.startswith(p)\<close>\<close>

definition startswith :: "'a list \<Rightarrow> 'a list \<Rightarrow> bool" where
  "startswith s p = prefix p s"

text \<open>The characters \<^verbatim>\<open>str.isspace\<close> accepts below code point 256.\<close>

definition isspace :: "char \<Rightarrow> bool" where
  "isspace c =
     (c = CHR '' '' \<or> c = CHR 0x09 \<or> c = CHR 0x0A \<or> c = CHR 0x0B \<or> c = CHR 0x0C \<or>
      c = CHR 0x0D \<or> c = CHR 0x1C \<or> c = CHR 0x1D \<or> c = CHR 0x1E \<or> c = CHR 0x1F \<or>
      c = CHR 0x85 \<or> c = CHR 0xA0)"

text \<open>\<^verbatim>\<open>s.strip()\<close>\<close>

definition strip :: "string \<Rightarrow> string" where
  "strip s = rev (dropWhile isspace (rev (dropWhile isspace s)))"

text \<open>\<^verbatim>\<open>s.replace(old, new, 1)\<close>: only the leftmost occurrence is replaced.\<close>

fun replace1 :: "string \<Rightarrow> string \<Rightarrow> string \<Rightarrow> string" where
  "replace1 old new [] = (if old = [] then new else [])"
| "replace1 old new (c # cs) =
     (if prefix old (c # cs) then new @ drop (length old) (c # cs)
      else c # replace1 old new cs)"

text \<open>\<^verbatim>\<open>x or d\<close> on strings: the empty string is falsy.\<close>

definition str_or :: "string \<Rightarrow> string \<Rightarrow> string" where
  "str_or x d = (if x = [] then d else x)"

text \<open>\<^verbatim>\<open>xs[i]\<close> with Python's negative indices and its IndexError.\<close>

definition py_index :: "'a list \<Rightarrow> int \<Rightarrow> py_error + 'a" where
  "py_index xs i =
     (if 0 \<le> i \<and> i < int (length xs) then Inr (xs ! nat i)
      else if i < 0 \<and> - int (length xs) \<le> i then Inr (xs ! nat (int (length xs) + i))
      else Inl IndexError)"

text \<open>Clamping of one slice bound, as \<^verbatim>\<open>xs[a:b]\<close> does.\<close>

definition slice_bound :: "nat \<Rightarrow> int \<Rightarrow> nat" where
  "slice_bound n i = (if i < 0 then nat (max 0 (int n + i)) else min n (nat i))"

text \<open>\<^verbatim>\<open>xs[a:b]\<close> and \<^verbatim>\<open>xs[a:]\<close>\<close>

definition py_slice :: "'a list \<Rightarrow> int \<Rightarrow> int \<Rightarrow> 'a list" where
  "py_slice xs a b =
     take (slice_bound (length xs) b - slice_bound (length xs) a)
          (drop (slice_bound (length xs) a) xs)"

definition py_slice_from :: "'a list \<Rightarrow> int \<Rightarrow> 'a list" where
  "py_slice_from xs a = drop (slice_bound (length xs) a) xs"

text \<open>\<^verbatim>\<open>str.upper\<close> on the ASCII letters; other characters are left as they are.\<close>

definition upper_char :: "char \<Rightarrow> char" where
  "upper_char c =
     (if CHR ''a'' \<le> c \<and> c \<le> CHR ''z'' then char_of (of_char c - (32::nat)) else c)"

definition upper :: "string \<Rightarrow> string" where
  "upper s = map upper_char s"

section \<open>Parser.py\<close>

subsection \<open>parse_crash_header\<close>

text \<open>
  One iteration of the \<^verbatim>\<open>for line in crash_data\<close> loop: three independent
  \<^verbatim>\<open>if\<close> statements, each overwriting its variable on a match.
\<close>

definition header_step ::
  "string \<Rightarrow> string \<Rightarrow> string \<times> string \<times> string \<Rightarrow> string \<Rightarrow> string \<times> string \<times> string" where
  "header_step crashgen_name game_root_name st line =
     (case st of (game_version, crashgen_version, main_error) \<Rightarrow>
        (if game_root_name \<noteq> [] \<and> startswith line game_root_name
           then strip line else game_version,
         if startswith line crashgen_name
           then strip line else crashgen_version,
         if startswith line ''Unhandled exception''
           then replace1 ''|'' [CHR 0x0A] line else main_error))"

definition parse_crash_header ::
  "string list \<Rightarrow> string \<Rightarrow> string \<Rightarrow> string \<times> string \<times> string" where
  "parse_crash_header crash_data crashgen_name game_root_name =
     (case foldl (header_step crashgen_name game_root_name)
                 (''UNKNOWN'', ''UNKNOWN'', ''UNKNOWN'') crash_data of
        (game_version, crashgen_version, main_error) \<Rightarrow>
          (str_or game_version ''UNKNOWN'',
           str_or crashgen_version ''UNKNOWN'',
           str_or main_error ''UNKNOWN''))"

subsection \<open>extract_segments\<close>

text \<open>The local variables of \<^verbatim>\<open>extract_segments\<close> that the loop updates.\<close>

record scan_state =
  segments :: "string list list"
  current_index :: int
  segment_index :: nat
  collecting :: bool
  segment_start_index :: int
  current_boundary :: string

text \<open>What one pass through the loop body ends with: \<^verbatim>\<open>break\<close> or the next test.\<close>

datatype loop_exit = Break scan_state | Next scan_state

text \<open>
  The end of the loop body: the check for the last line while collecting, then
  \<^verbatim>\<open>current_index += 1\<close>.
\<close>

definition finish_iteration :: "string list \<Rightarrow> scan_state \<Rightarrow> scan_state" where
  "finish_iteration crash_data st =
     (let st1 = (if collecting st \<and> current_index st = int (length crash_data) - 1
                 then st\<lparr>segments := segments st @
                                       [py_slice_from crash_data (segment_start_index st)]\<rparr>
                 else st)
      in st1\<lparr>current_index := current_index st1 + 1\<rparr>)"

text \<open>
  The part of the boundary branch after the \<^verbatim>\<open>if collecting / else\<close>: toggle
  the flag, read the next marker, handle the end-of-file marker, step back after
  an end marker.
\<close>

definition toggle_boundary ::
  "string list \<Rightarrow> (string \<times> string) list \<Rightarrow> string \<Rightarrow> scan_state \<Rightarrow> py_error + loop_exit" where
  "toggle_boundary crash_data segment_boundaries eof_marker st =
     (case py_index segment_boundaries (int (segment_index st)) of
        Inl e \<Rightarrow> Inl e
      | Inr pair \<Rightarrow>
          (let st1 = st\<lparr>collecting := \<not> collecting st,
                        current_boundary := (if \<not> collecting st then snd pair else fst pair)\<rparr>
           in if collecting st1 \<and> current_boundary st1 = eof_marker
              then Inr (Break (st1\<lparr>segments := segments st1 @
                                   [py_slice_from crash_data (segment_start_index st1)]\<rparr>))
              else if \<not> collecting st1
              then Inr (Next (finish_iteration crash_data
                                (st1\<lparr>current_index := current_index st1 - 1\<rparr>)))
              else Inr (Next (finish_iteration crash_data st1))))"

text \<open>One pass through the body of \<^verbatim>\<open>while current_index < total_lines\<close>.\<close>

definition extract_step ::
  "string list \<Rightarrow> (string \<times> string) list \<Rightarrow> string \<Rightarrow> scan_state \<Rightarrow> py_error + loop_exit" where
  "extract_step crash_data segment_boundaries eof_marker st =
     (case py_index crash_data (current_index st) of
        Inl e \<Rightarrow> Inl e
      | Inr line \<Rightarrow>
          if startswith line (current_boundary st) then
            (if collecting st then
               (let segment_end_index =
                      (if current_index st > 0 then current_index st - 1 else current_index st);
                    st1 = st\<lparr>segments := segments st @
                                [py_slice crash_data (segment_start_index st) segment_end_index],
                             segment_index := segment_index st + 1\<rparr>
                in if segment_index st1 = length segment_boundaries then Inr (Break st1)
                   else toggle_boundary crash_data segment_boundaries eof_marker st1)
             else
               toggle_boundary crash_data segment_boundaries eof_marker
                 (st\<lparr>segment_start_index :=
                       (if int (length crash_data) > current_index st
                        then current_index st + 1 else current_index st)\<rparr>))
          else Inr (Next (finish_iteration crash_data st)))"

text \<open>
  The loop. Each pass either moves \<open>current_index\<close> forward or leaves it in place
  while switching \<open>collecting\<close> off, so twice the distance to the end plus the flag
  decreases.
\<close>

function extract_loop ::
  "string list \<Rightarrow> (string \<times> string) list \<Rightarrow> string \<Rightarrow> scan_state \<Rightarrow> py_error + string list list" where
  "extract_loop crash_data segment_boundaries eof_marker st =
     (if current_index st < int (length crash_data) then
        (case extract_step crash_data segment_boundaries eof_marker st of
           Inl e \<Rightarrow> Inl e
         | Inr (Break st1) \<Rightarrow> Inr (segments st1)
         | Inr (Next st1) \<Rightarrow> extract_loop crash_data segment_boundaries eof_marker st1)
      else Inr (segments st))"
  by pat_completeness auto
termination
proof (relation "measure (\<lambda>(crash_data, segment_boundaries, eof_marker, st).
          nat (2 * (int (length crash_data) - current_index st)
               + (if collecting st then 1 else 0)))")
  show "wf (measure (\<lambda>(crash_data, segment_boundaries, eof_marker, st).
          nat (2 * (int (length crash_data) - current_index st)
               + (if collecting st then 1 else 0))))"
    by simp
next
  fix crash_data :: "string list" and segment_boundaries :: "(string \<times> string) list"
    and eof_marker :: string and st :: scan_state and x2 :: loop_exit and st1 :: scan_state
  assume lt: "current_index st < int (length crash_data)"
    and step: "extract_step crash_data segment_boundaries eof_marker st = Inr x2"
    and nx: "x2 = Next st1"
  have "2 * (int (length crash_data) - current_index st1) + (if collecting st1 then 1 else 0)
        < 2 * (int (length crash_data) - current_index st) + (if collecting st then 1 else 0)"
    using step nx lt
    by (auto simp: extract_step_def toggle_boundary_def finish_iteration_def Let_def
             split: sum.splits if_splits)
  then show "((crash_data, segment_boundaries, eof_marker, st1),
              (crash_data, segment_boundaries, eof_marker, st)) \<in>
             measure (\<lambda>(crash_data, segment_boundaries, eof_marker, st).
               nat (2 * (int (length crash_data) - current_index st)
                    + (if collecting st then 1 else 0)))"
    using lt by simp
qed

declare extract_loop.simps [simp del]

definition extract_segments ::
  "string list \<Rightarrow> (string \<times> string) list \<Rightarrow> string \<Rightarrow> py_error + string list list" where
  "extract_segments crash_data segment_boundaries eof_marker =
     (case py_index segment_boundaries 0 of
        Inl e \<Rightarrow> Inl e
      | Inr pair \<Rightarrow>
          extract_loop crash_data segment_boundaries eof_marker
            \<lparr>segments = [], current_index = 0, segment_index = 0, collecting = False,
             segment_start_index = 0, current_boundary = fst pair\<rparr>)"

subsection \<open>find_segments\<close>

text \<open>The six boundary pairs that \<^verbatim>\<open>find_segments\<close> builds.\<close>

definition boundaries_of :: "string \<Rightarrow> (string \<times> string) list" where
  "boundaries_of xse_acronym =
     [([CHR 0x09] @ ''[Compatibility]'', ''SYSTEM SPECS:''),
      (''SYSTEM SPECS:'', ''PROBABLE CALL STACK:''),
      (''PROBABLE CALL STACK:'', ''MODULES:''),
      (''MODULES:'', upper xse_acronym @ '' PLUGINS:''),
      (upper xse_acronym @ '' PLUGINS:'', ''PLUGINS:''),
      (''PLUGINS:'', ''EOF'')]"

definition find_segments ::
  "string list \<Rightarrow> string \<Rightarrow> string \<Rightarrow> string \<Rightarrow>
     py_error + (string \<times> string \<times> string \<times> string list list)" where
  "find_segments crash_data crashgen_name xse_acronym game_root_name =
     (let segment_boundaries = boundaries_of xse_acronym;
          header = parse_crash_header crash_data crashgen_name game_root_name
      in case extract_segments crash_data segment_boundaries ''EOF'' of
           Inl e \<Rightarrow> Inl e
         | Inr segs \<Rightarrow>
             (let processed_segments = (if segs \<noteq> [] then map (map strip) segs else segs);
                  missing_segments_count =
                    int (length segment_boundaries) - int (length processed_segments)
              in Inr (fst header, fst (snd header), snd (snd header),
                      if missing_segments_count > 0
                      then processed_segments @ replicate (nat missing_segments_count) []
                      else processed_segments)))"

subsection \<open>Invariant of the extraction loop\<close>

text \<open>Some line of the log starts with the start marker of boundary pair \<open>j\<close>.\<close>

definition marker_found :: "string list \<Rightarrow> (string \<times> string) list \<Rightarrow> nat \<Rightarrow> bool" where
  "marker_found cd sb j = (\<exists>l\<in>set cd. startswith l (fst (sb ! j)))"

text \<open>
  What holds at every test of the loop condition: the index is not negative, the
  pair index is in range, one segment was appended per finished pair, and every
  appended or open segment had its start marker found.
\<close>

definition scan_inv :: "string list \<Rightarrow> (string \<times> string) list \<Rightarrow> scan_state \<Rightarrow> bool" where
  "scan_inv cd sb st =
     (0 \<le> current_index st \<and> segment_index st < length sb \<and>
      (current_index st < int (length cd) \<longrightarrow> length (segments st) = segment_index st) \<and>
      length (segments st) \<le> length sb \<and>
      (\<forall>j<length (segments st). marker_found cd sb j) \<and>
      (collecting st \<longrightarrow> marker_found cd sb (segment_index st)) \<and>
      (\<not> collecting st \<longrightarrow> current_boundary st = fst (sb ! segment_index st)))"

text \<open>What holds of the returned list of segments.\<close>

definition scan_post :: "string list \<Rightarrow> (string \<times> string) list \<Rightarrow> string list list \<Rightarrow> bool" where
  "scan_post cd sb segs = (length segs \<le> length sb \<and> (\<forall>j<length segs. marker_found cd sb j))"

section \<open>More Python string primitives\<close>

text \<open>\<^verbatim>\<open>sub in s\<close> on strings: \<open>sub\<close> occurs in \<open>s\<close> as a contiguous run.\<close>

fun py_in :: "string \<Rightarrow> string \<Rightarrow> bool" where
  "py_in sub [] = (sub = [])"
| "py_in sub (c # cs) = (prefix sub (c # cs) \<or> py_in sub cs)"

text \<open>
  \<^verbatim>\<open>s.count(sub)\<close>: occurrences counted from the left without overlap; the empty
  string is counted once before every character and once at the end.
\<close>

function py_count :: "string \<Rightarrow> string \<Rightarrow> nat" where
  "py_count s sub =
     (if sub = [] then length s + 1
      else if s = [] then 0
      else if prefix sub s then 1 + py_count (drop (length sub) s) sub
      else py_count (tl s) sub)"
  by pat_completeness auto
termination
  by (relation "measure (\<lambda>(s, sub). length s)") auto

declare py_count.simps [simp del]

text \<open>
  \<^verbatim>\<open>s.split(sep, 1)\<close> for a non-empty separator: \<open>None\<close> when the separator does
  not occur (the result has one element), else the text before the leftmost
  occurrence and the text after it.
\<close>

fun split_once :: "string \<Rightarrow> string \<Rightarrow> (string \<times> string) option" where
  "split_once sep [] = None"
| "split_once sep (c # cs) =
     (if prefix sep (c # cs) then Some ([], drop (length sep) (c # cs))
      else (case split_once sep cs of
              None \<Rightarrow> None
            | Some (before, after) \<Rightarrow> Some (c # before, after)))"

text \<open>\<^verbatim>\<open>str.isdecimal\<close>: non-empty and made of the digits 0 to 9.\<close>

definition isdecimal :: "string \<Rightarrow> bool" where
  "isdecimal s = (s \<noteq> [] \<and> (\<forall>c\<in>set s. CHR ''0'' \<le> c \<and> c \<le> CHR ''9''))"

text \<open>
  \<^verbatim>\<open>int(s)\<close> on a string of decimal digits. The interpreter refuses strings
  of more than 4300 digits (its default limit) with ValueError; the function here
  is total, and the statements about numeric signals assume the limit is kept.
\<close>

definition py_int :: "string \<Rightarrow> nat" where
  "py_int s = foldl (\<lambda>n c. 10 * n + (of_char c - of_char CHR ''0'')) 0 s"

text \<open>\<^verbatim>\<open>s.ljust(width, fill)\<close>\<close>

definition ljust :: "string \<Rightarrow> int \<Rightarrow> char \<Rightarrow> string" where
  "ljust s width fill = s @ replicate (nat (width - int (length s))) fill"

text \<open>
  Modelled from the spec: \<^verbatim>\<open>ClassicLib.Util.append_or_extend\<close> is not among the
  sources. Every analyzer is "appending to one shared report buffer": a string is
  appended, the strings of a tuple are appended in order. Both are written here as
  appending a list of strings.
\<close>

definition append_or_extend :: "string list \<Rightarrow> string list \<Rightarrow> string list" where
  "append_or_extend values autoscan_report = autoscan_report @ values"

section \<open>SuspectScanner.py\<close>

record match_status =
  has_required_item :: bool
  error_req_found :: bool
  error_opt_found :: bool
  stack_found :: bool

text \<open>
  \<^verbatim>\<open>_process_signal\<close>: the returned flag is the function's result (stop on a
  NOT condition that is met), the record is the updated dictionary.
\<close>

definition process_signal ::
  "string \<Rightarrow> string \<Rightarrow> string \<Rightarrow> match_status \<Rightarrow> bool \<times> match_status" where
  "process_signal signal crashlog_mainerror segment_callstack_intact ms =
     (case split_once ''|'' signal of
        None \<Rightarrow>
          (False, if py_in signal segment_callstack_intact
                  then ms\<lparr>stack_found := True\<rparr> else ms)
      | Some (signal_modifier, signal_string) \<Rightarrow>
          if signal_modifier = ''ME-REQ'' then
            (False, if py_in signal_string crashlog_mainerror
                    then ms\<lparr>has_required_item := True, error_req_found := True\<rparr>
                    else ms\<lparr>has_required_item := True\<rparr>)
          else if signal_modifier = ''ME-OPT'' then
            (False, if py_in signal_string crashlog_mainerror
                    then ms\<lparr>error_opt_found := True\<rparr> else ms)
          else if signal_modifier = ''NOT'' then
            (py_in signal_string segment_callstack_intact, ms)
          else if isdecimal signal_modifier then
            (False, if py_count segment_callstack_intact signal_string \<ge> py_int signal_modifier
                    then ms\<lparr>stack_found := True\<rparr> else ms)
          else (False, ms))"

text \<open>\<^verbatim>\<open>_is_suspect_match\<close>\<close>

definition is_suspect_match :: "match_status \<Rightarrow> bool" where
  "is_suspect_match ms =
     (if has_required_item ms then error_req_found ms
      else error_opt_found ms \<or> stack_found ms)"

text \<open>\<^verbatim>\<open>_add_suspect_to_report\<close>\<close>

definition suspect_message :: "string \<Rightarrow> string \<Rightarrow> int \<Rightarrow> string" where
  "suspect_message error_name error_severity max_warn_length =
     ''# Checking for '' @ ljust error_name max_warn_length CHR ''.'' @
     '' SUSPECT FOUND! > Severity : '' @ error_severity @ '' # '' @ [CHR 0x0A] @
     ''-----'' @ [CHR 0x0A]"

definition add_suspect_to_report :: "string \<Rightarrow> string \<Rightarrow> int \<Rightarrow> string list \<Rightarrow> string list" where
  "add_suspect_to_report error_name error_severity max_warn_length autoscan_report =
     append_or_extend [suspect_message error_name error_severity max_warn_length] autoscan_report"

text \<open>
  The inner \<^verbatim>\<open>for signal in signal_list\<close> loop of \<^verbatim>\<open>suspect_scan_stack\<close>:
  the flag is \<open>should_skip_error\<close>, set by the first signal that asks to stop.
\<close>

fun process_signals ::
  "string list \<Rightarrow> string \<Rightarrow> string \<Rightarrow> match_status \<Rightarrow> bool \<times> match_status" where
  "process_signals [] crashlog_mainerror segment_callstack_intact ms = (False, ms)"
| "process_signals (signal # signal_list) crashlog_mainerror segment_callstack_intact ms =
     (case process_signal signal crashlog_mainerror segment_callstack_intact ms of
        (True, ms1) \<Rightarrow> (True, ms1)
      | (False, ms1) \<Rightarrow>
          process_signals signal_list crashlog_mainerror segment_callstack_intact ms1)"

text \<open>
  The outer loop over \<^verbatim>\<open>suspects_stack_list.items()\<close>, with the report and
  \<open>any_suspect_found\<close> passed along. Unpacking the split key raises ValueError when
  the key has no \<^verbatim>\<open>" | "\<close>.
\<close>

fun suspect_scan_rules ::
  "(string \<times> string list) list \<Rightarrow> string \<Rightarrow> string \<Rightarrow> int \<Rightarrow> string list \<times> bool \<Rightarrow>
     py_error + (string list \<times> bool)" where
  "suspect_scan_rules [] crashlog_mainerror segment_callstack_intact max_warn_length acc =
     Inr acc"
| "suspect_scan_rules ((error_key, signal_list) # rules) crashlog_mainerror
       segment_callstack_intact max_warn_length acc =
     (case split_once '' | '' error_key of
        None \<Rightarrow> Inl ValueError
      | Some (error_severity, error_name) \<Rightarrow>
          (case process_signals signal_list crashlog_mainerror segment_callstack_intact
                  \<lparr>has_required_item = False, error_req_found = False,
                   error_opt_found = False, stack_found = False\<rparr> of
             (True, ms) \<Rightarrow>
               suspect_scan_rules rules crashlog_mainerror segment_callstack_intact
                 max_warn_length acc
           | (False, ms) \<Rightarrow>
               if is_suspect_match ms then
                 suspect_scan_rules rules crashlog_mainerror segment_callstack_intact
                   max_warn_length
                   (add_suspect_to_report error_name error_severity max_warn_length (fst acc),
                    True)
               else
                 suspect_scan_rules rules crashlog_mainerror segment_callstack_intact
                   max_warn_length acc))"

text \<open>
  \<^verbatim>\<open>suspect_scan_stack\<close>; the first argument is
  \<^verbatim>\<open>self.yamldata.suspects_stack_list\<close>. The result is the report after the
  scan and the returned flag.
\<close>

definition suspect_scan_stack ::
  "(string \<times> string list) list \<Rightarrow> string \<Rightarrow> string \<Rightarrow> string list \<Rightarrow> int \<Rightarrow>
     py_error + (string list \<times> bool)" where
  "suspect_scan_stack suspects_stack_list crashlog_mainerror segment_callstack_intact
       autoscan_report max_warn_length =
     suspect_scan_rules suspects_stack_list crashlog_mainerror segment_callstack_intact
       max_warn_length (autoscan_report, False)"

text \<open>
  A signal that leaves the match status as it is and does not stop the rule: a
  plain signal absent from the call stack, an ME-OPT signal absent from the main
  error, a NOT signal absent from the call stack, or a signal with an unknown
  modifier. ME-REQ signals and numeric signals are not of this kind.
\<close>

definition quiet_signal :: "string \<Rightarrow> string \<Rightarrow> string \<Rightarrow> bool" where
  "quiet_signal signal crashlog_mainerror segment_callstack_intact =
     (case split_once ''|'' signal of
        None \<Rightarrow> \<not> py_in signal segment_callstack_intact
      | Some (signal_modifier, signal_string) \<Rightarrow>
          signal_modifier \<noteq> ''ME-REQ'' \<and> \<not> isdecimal signal_modifier \<and>
          (signal_modifier = ''ME-OPT'' \<longrightarrow> \<not> py_in signal_string crashlog_mainerror) \<and>
          (signal_modifier = ''NOT'' \<longrightarrow> \<not> py_in signal_string segment_callstack_intact))"

text \<open>
  A signal that does not match: a plain signal absent from the call stack, an
  ME-REQ or ME-OPT signal absent from the main error, a NOT signal absent from
  the call stack, or a signal with an unknown modifier. An ME-REQ signal of this
  kind still marks the rule as one that requires the main error.
\<close>

definition unmatched_signal :: "string \<Rightarrow> string \<Rightarrow> string \<Rightarrow> bool" where
  "unmatched_signal signal crashlog_mainerror segment_callstack_intact =
     (case split_once ''|'' signal of
        None \<Rightarrow> \<not> py_in signal segment_callstack_intact
      | Some (signal_modifier, signal_string) \<Rightarrow>
          \<not> isdecimal signal_modifier \<and>
          (signal_modifier = ''ME-REQ'' \<longrightarrow> \<not> py_in signal_string crashlog_mainerror) \<and>
          (signal_modifier = ''ME-OPT'' \<longrightarrow> \<not> py_in signal_string crashlog_mainerror) \<and>
          (signal_modifier = ''NOT'' \<longrightarrow> \<not> py_in signal_string segment_callstack_intact))"

section \<open>FormIDAnalyzer.py\<close>

subsection \<open>extract_formids\<close>

text \<open>
  The characters that \<^verbatim>\<open>\s\<close> matches in a pattern of the \<^verbatim>\<open>regex\<close> module,
  below code point 256: those with the Unicode property White_Space. The
  separators 0x1C to 0x1F, which \<^verbatim>\<open>str.isspace\<close> accepts, are not among them.
\<close>

definition regex_space :: "char \<Rightarrow> bool" where
  "regex_space c =
     (c = CHR '' '' \<or> c = CHR 0x09 \<or> c = CHR 0x0A \<or> c = CHR 0x0B \<or> c = CHR 0x0C \<or>
      c = CHR 0x0D \<or> c = CHR 0x85 \<or> c = CHR 0xA0)"

text \<open>A character of the class \<^verbatim>\<open>[0-9A-F]\<close> under IGNORECASE.\<close>

definition ishex :: "char \<Rightarrow> bool" where
  "ishex c =
     (CHR ''0'' \<le> c \<and> c \<le> CHR ''9'' \<or> CHR ''A'' \<le> c \<and> c \<le> CHR ''F'' \<or>
      CHR ''a'' \<le> c \<and> c \<le> CHR ''f'')"

text \<open>A literal piece of a pattern under IGNORECASE, matched at the start of \<open>s\<close>.\<close>

definition caseless_startswith :: "string \<Rightarrow> string \<Rightarrow> bool" where
  "caseless_startswith s p = prefix (upper p) (upper s)"

text \<open>
  \<^verbatim>\<open>self.formid_pattern.search(line)\<close> for the pattern
  \<^verbatim>\<open>^\s*Form ID:\s*0x([0-9A-F]{8})\<close> compiled with IGNORECASE. The pattern is
  anchored at the start of the line, each \<^verbatim>\<open>\s*\<close> is followed by a character
  that is no white space, so the match is found without backtracking. The result
  is group 1.
\<close>

definition formid_pattern_search :: "string \<Rightarrow> string option" where
  "formid_pattern_search line =
     (let after_space = dropWhile regex_space line in
      if caseless_startswith after_space ''Form ID:'' then
        (let after_label = dropWhile regex_space (drop 8 after_space) in
         if caseless_startswith after_label ''0x'' then
           (let digits = take 8 (drop 2 after_label) in
            if length digits = 8 \<and> (\<forall>c\<in>set digits. ishex c) then Some digits else None)
         else None)
      else None)"

text \<open>
  \<^verbatim>\<open>extract_formids\<close>: the list built by the appends of the loop, in order. An
  empty segment returns the empty list at once.
\<close>

fun extract_formids :: "string list \<Rightarrow> string list" where
  "extract_formids [] = []"
| "extract_formids (line # segment_callstack) =
     (case formid_pattern_search line of
        None \<Rightarrow> extract_formids segment_callstack
      | Some group1 \<Rightarrow>
          (let formid_id = upper group1 in
           if \<not> startswith formid_id ''FF''
           then (''Form ID: '' @ formid_id) # extract_formids segment_callstack
           else extract_formids segment_callstack))"

text \<open>An upper-case hexadecimal digit.\<close>

definition isupperhex :: "char \<Rightarrow> bool" where
  "isupperhex c = (CHR ''0'' \<le> c \<and> c \<le> CHR ''9'' \<or> CHR ''A'' \<le> c \<and> c \<le> CHR ''F'')"

subsection \<open>formid_match\<close>

text \<open>\<^verbatim>\<open>str(n)\<close> for a count.\<close>

definition digit_char :: "nat \<Rightarrow> char" where
  "digit_char d = char_of (of_char CHR ''0'' + d)"

fun str_nat :: "nat \<Rightarrow> string" where
  "str_nat n = (if n < 10 then [digit_char n] else str_nat (n div 10) @ [digit_char (n mod 10)])"

declare str_nat.simps [simp del]

text \<open>
  \<^verbatim>\<open>dict(Counter(xs))\<close> as its items: one pair per distinct element, in the
  order of first occurrence, with the number of occurrences.
\<close>

fun counter_add :: "(string \<times> nat) list \<Rightarrow> string \<Rightarrow> (string \<times> nat) list" where
  "counter_add [] x = [(x, 1)]"
| "counter_add ((k, n) # items) x =
     (if k = x then (k, n + 1) # items else (k, n) # counter_add items x)"

definition counter :: "string list \<Rightarrow> (string \<times> nat) list" where
  "counter xs = foldl counter_add [] xs"

text \<open>The two report lines of \<^verbatim>\<open>formid_match\<close>.\<close>

definition formid_line_described :: "string \<Rightarrow> string \<Rightarrow> string \<Rightarrow> nat \<Rightarrow> string" where
  "formid_line_described formid_full plugin report count =
     ''- '' @ formid_full @ '' | ['' @ plugin @ ''] | '' @ report @ '' | '' @
     str_nat count @ [CHR 0x0A]"

definition formid_line_plain :: "string \<Rightarrow> string \<Rightarrow> nat \<Rightarrow> string" where
  "formid_line_plain formid_full plugin count =
     ''- '' @ formid_full @ '' | ['' @ plugin @ ''] | '' @ str_nat count @ [CHR 0x0A]"

text \<open>
  The loop \<^verbatim>\<open>for plugin, plugin_id in crashlog_plugins.items()\<close> for one form
  id; the result is the list of lines it appends. \<open>get_entry\<close> stands for
  \<^verbatim>\<open>ClassicLib.ScanLog.Util.get_entry\<close>, the lookup in the form id database,
  which is not among the sources; \<open>None\<close> and the empty string are both falsy.
  After a described line the loop goes on (\<^verbatim>\<open>continue\<close>), after a plain line
  it ends (\<^verbatim>\<open>break\<close>).
\<close>

fun formid_plugin_loop ::
  "(string \<Rightarrow> string \<Rightarrow> string option) \<Rightarrow> bool \<Rightarrow> bool \<Rightarrow> string \<Rightarrow> string \<Rightarrow> nat \<Rightarrow>
     (string \<times> string) list \<Rightarrow> string list" where
  "formid_plugin_loop get_entry show_formid_values formid_db_exists formid_full formid count
       [] = []"
| "formid_plugin_loop get_entry show_formid_values formid_db_exists formid_full formid count
       ((plugin, plugin_id) # crashlog_plugins) =
     (if plugin_id \<noteq> take 2 formid then
        formid_plugin_loop get_entry show_formid_values formid_db_exists formid_full formid
          count crashlog_plugins
      else
        (case (if show_formid_values \<and> formid_db_exists
               then get_entry (drop 2 formid) plugin else None) of
           None \<Rightarrow> [formid_line_plain formid_full plugin count]
         | Some report \<Rightarrow>
             if report \<noteq> [] then
               formid_line_described formid_full plugin report count #
               formid_plugin_loop get_entry show_formid_values formid_db_exists formid_full
                 formid count crashlog_plugins
             else [formid_line_plain formid_full plugin count]))"

text \<open>
  The body of the loop over \<^verbatim>\<open>formids_found.items()\<close>: split the entry at
  \<^verbatim>\<open>": "\<close>, skip it when there is no second part, else scan the plugins.
\<close>

definition formid_group_lines ::
  "(string \<Rightarrow> string \<Rightarrow> string option) \<Rightarrow> bool \<Rightarrow> bool \<Rightarrow> (string \<times> string) list \<Rightarrow>
     string \<times> nat \<Rightarrow> string list" where
  "formid_group_lines get_entry show_formid_values formid_db_exists crashlog_plugins item =
     (case split_once '': '' (fst item) of
        None \<Rightarrow> []
      | Some (label, formid) \<Rightarrow>
          formid_plugin_loop get_entry show_formid_values formid_db_exists (fst item) formid
            (snd item) crashlog_plugins)"

text \<open>
  \<^verbatim>\<open>formid_match\<close>; \<open>crashgen_name\<close> is \<^verbatim>\<open>self.yamldata.crashgen_name\<close>. The
  result is the report after the call.
\<close>

definition formid_match ::
  "(string \<Rightarrow> string \<Rightarrow> string option) \<Rightarrow> string \<Rightarrow> bool \<Rightarrow> bool \<Rightarrow> string list \<Rightarrow>
     (string \<times> string) list \<Rightarrow> string list \<Rightarrow> string list" where
  "formid_match get_entry crashgen_name show_formid_values formid_db_exists formids_matches
       crashlog_plugins autoscan_report =
     (if formids_matches \<noteq> [] then
        append_or_extend
          [[CHR 0x0A] @
           ''[Last number counts how many times each Form ID shows up in the crash log.]'' @
           [CHR 0x0A],
           ''These Form IDs were caught by '' @ crashgen_name @
           '' and some of them might be related to this crash.'' @ [CHR 0x0A],
           ''You can try searching any listed Form IDs in xEdit and see if they lead to relevant records.'' @
           [CHR 0x0A, CHR 0x0A]]
          (foldl (\<lambda>report item.
                    append_or_extend
                      (formid_group_lines get_entry show_formid_values formid_db_exists
                         crashlog_plugins item) report)
             autoscan_report (counter (sort formids_matches)))
      else
        append_or_extend
          [''* COULDN'' @ [CHR 0x27] @ ''T FIND ANY FORM ID SUSPECTS *'' @ [CHR 0x0A, CHR 0x0A]]
          autoscan_report)"

text \<open>A lookup that knows one description for every form id of every plugin.\<close>

definition lookup_all :: "string \<Rightarrow> string \<Rightarrow> string option" where
  "lookup_all formid plugin = Some ''Workbench''"

section \<open>SettingsScanner.py\<close>

text \<open>A value of the settings dictionary, typed \<^verbatim>\<open>bool | int | str\<close>.\<close>

datatype setting_value = BoolValue bool | IntValue int | StrValue string

definition disabled_notice :: "string \<Rightarrow> string \<Rightarrow> string" where
  "disabled_notice crashgen_name setting_name =
     ''* NOTICE : '' @ setting_name @ '' is disabled in your '' @ crashgen_name @
     '' settings, is this intentional? * '' @ [CHR 0x0A] @ ''-----'' @ [CHR 0x0A]"

text \<open>
  \<^verbatim>\<open>check_disabled_settings\<close>: \<^verbatim>\<open>setting_value is False\<close> holds for the
  boolean \<open>False\<close> only; the set is tested with \<^verbatim>\<open>not in\<close>. The dictionary is
  given by its items.
\<close>

definition check_disabled_settings ::
  "string \<Rightarrow> (string \<times> setting_value) list \<Rightarrow> string list \<Rightarrow> string set \<Rightarrow> string list" where
  "check_disabled_settings crashgen_name crashgen autoscan_report crashgen_ignore =
     (if crashgen \<noteq> [] then
        foldl (\<lambda>report (setting_name, setting_value).
                 if setting_value = BoolValue False \<and> setting_name \<notin> crashgen_ignore
                 then append_or_extend [disabled_notice crashgen_name setting_name] report
                 else report)
          autoscan_report crashgen
      else autoscan_report)"

section \<open>CLASSIC_ScanLogs.py\<close>

text \<open>
  A path is the list of its components, the file name last. The file system is
  the map from the paths of the existing files to their contents; directories
  are not files, so \<^verbatim>\<open>mkdir(parents=True, exist_ok=True)\<close> leaves the map as
  it is.
\<close>

type_synonym path = "string list"
type_synonym filesystem = "path \<rightharpoonup> string"

text \<open>\<^verbatim>\<open>s.rfind(c)\<close> as an option: the index of the last occurrence.\<close>

fun rfind :: "string \<Rightarrow> char \<Rightarrow> nat option" where
  "rfind [] c = None"
| "rfind (x # xs) c =
     (case rfind xs c of
        Some i \<Rightarrow> Some (i + 1)
      | None \<Rightarrow> if x = c then Some 0 else None)"

text \<open>\<^verbatim>\<open>Path.name\<close> and \<^verbatim>\<open>Path.stem\<close>\<close>

definition path_name :: "path \<Rightarrow> string" where
  "path_name p = (if p = [] then [] else last p)"

definition path_stem :: "path \<Rightarrow> string" where
  "path_stem p =
     (case rfind (path_name p) CHR ''.'' of
        None \<Rightarrow> path_name p
      | Some i \<Rightarrow>
          if 0 < i \<and> i < length (path_name p) - 1 then take i (path_name p)
          else path_name p)"

text \<open>\<^verbatim>\<open>Path.with_name\<close>: ValueError for a path without a name.\<close>

definition with_name :: "path \<Rightarrow> string \<Rightarrow> py_error + path" where
  "with_name p n = (if path_name p = [] then Inl ValueError else Inr (butlast p @ [n]))"

text \<open>
  \<^verbatim>\<open>Path.rename\<close>: the source must exist; the file is then found at the target
  (which it replaces) and no longer at the source.
\<close>

definition rename :: "path \<Rightarrow> path \<Rightarrow> filesystem \<Rightarrow> py_error + filesystem" where
  "rename src dst fs =
     (case fs src of
        None \<Rightarrow> Inl FileNotFoundError
      | Some content \<Rightarrow> Inr ((fs(src := None))(dst \<mapsto> content)))"

text \<open>
  \<^verbatim>\<open>move_unsolved_logs\<close>; \<open>local_dir\<close> is \<^verbatim>\<open>GlobalRegistry.get_local_dir()\<close>.
\<close>

definition move_unsolved_logs :: "path \<Rightarrow> path \<Rightarrow> filesystem \<Rightarrow> py_error + filesystem" where
  "move_unsolved_logs crashlog_file local_dir fs =
     (let backup_path = local_dir @ [''CLASSIC Backup'', ''Unsolved Logs'']
      in case with_name crashlog_file (path_stem crashlog_file @ ''-AUTOSCAN.md'') of
           Inl e \<Rightarrow> Inl e
         | Inr autoscan_filepath \<Rightarrow>
             (let backup_filepath = backup_path @ [path_name autoscan_filepath]
              in if fs crashlog_file \<noteq> None
                 then rename crashlog_file backup_filepath fs
                 else rename autoscan_filepath
                        (backup_path @ [path_name autoscan_filepath]) fs))"

text \<open>
  \<^verbatim>\<open>write_report_to_file\<close>; \<open>move_unsolved\<close> is
  \<^verbatim>\<open>scanner.move_unsolved_logs\<close>.
\<close>

definition write_report_to_file ::
  "path \<Rightarrow> string list \<Rightarrow> bool \<Rightarrow> bool \<Rightarrow> path \<Rightarrow> filesystem \<Rightarrow> py_error + filesystem" where
  "write_report_to_file crashlog_file autoscan_report trigger_scan_failed move_unsolved
       local_dir fs =
     (case with_name crashlog_file (path_stem crashlog_file @ ''-AUTOSCAN.md'') of
        Inl e \<Rightarrow> Inl e
      | Inr autoscan_path \<Rightarrow>
          (let fs1 = fs(autoscan_path \<mapsto> concat autoscan_report)
           in if trigger_scan_failed \<and> move_unsolved
              then move_unsolved_logs crashlog_file local_dir fs1
              else Inr fs1))"

section \<open>Properties of parse_crash_header\<close>

lemma replace1_nonempty: "s \<noteq> [] \<Longrightarrow> new \<noteq> [] \<Longrightarrow> replace1 old new s \<noteq> []"
  by (cases s) auto

lemma header_fold:
  "foldl (header_step cg gr) (g, c, m) xs =
     (let gs = filter (\<lambda>l. gr \<noteq> [] \<and> startswith l gr) xs;
          cs = filter (\<lambda>l. startswith l cg) xs;
          ms = filter (\<lambda>l. startswith l ''Unhandled exception'') xs
      in (if gs = [] then g else strip (last gs),
          if cs = [] then c else strip (last cs),
          if ms = [] then m else replace1 ''|'' [CHR 0x0A] (last ms)))"
proof (induction xs arbitrary: g c m)
  case Nil
  show ?case by simp
next
  case (Cons x xs)
  show ?case
    unfolding foldl_Cons header_step_def[of cg gr "(g, c, m)" x] prod.case Cons.IH
    by (simp add: Let_def)
qed

lemma marker_line_nonempty:
  "xs \<noteq> [] \<Longrightarrow> \<forall>l\<in>set xs. startswith l ''Unhandled exception'' \<Longrightarrow> last xs \<noteq> []"
  by (induction xs) (auto simp: startswith_def)

text \<open>
  Claim C2, as the code has it. All three header fields are overwritten on every
  matching line, so each of them is decided by the last matching line of the log:
  the game version is the stripped last line starting with the game root name
  (a check that an empty root name switches off), the generator version is the
  stripped last line starting with the generator name, and the main error is the
  last line starting with \<^verbatim>\<open>Unhandled exception\<close> with its leftmost
  \<^verbatim>\<open>|\<close> replaced by a newline. A field without a matching line, or whose
  value is empty, is \<^verbatim>\<open>UNKNOWN\<close>.
\<close>

theorem parse_crash_header_last_match:
  "parse_crash_header crash_data crashgen_name game_root_name =
     (let gs = filter (\<lambda>l. game_root_name \<noteq> [] \<and> startswith l game_root_name) crash_data;
          cs = filter (\<lambda>l. startswith l crashgen_name) crash_data;
          ms = filter (\<lambda>l. startswith l ''Unhandled exception'') crash_data
      in (if gs = [] then ''UNKNOWN'' else str_or (strip (last gs)) ''UNKNOWN'',
          if cs = [] then ''UNKNOWN'' else str_or (strip (last cs)) ''UNKNOWN'',
          if ms = [] then ''UNKNOWN'' else replace1 ''|'' [CHR 0x0A] (last ms)))"
proof -
  let ?ms = "filter (\<lambda>l. startswith l ''Unhandled exception'') crash_data"
  have "?ms \<noteq> [] \<Longrightarrow> replace1 ''|'' [CHR 0x0A] (last ?ms) \<noteq> []"
    by (rule replace1_nonempty[OF marker_line_nonempty]) auto
  then show ?thesis
    unfolding parse_crash_header_def header_fold
    by (simp add: Let_def str_or_def)
qed

text \<open>
  Claim C2 as stated fails: with two lines starting with the marker, the main
  error is the second one, not the first.
\<close>

theorem parse_crash_header_first_match_counterexample:
  "snd (snd (parse_crash_header
      [''Unhandled exception A'', ''Unhandled exception B''] ''Buffout 4'' ''Fallout 4''))
    = ''Unhandled exception B''
   \<and> snd (snd (parse_crash_header
      [''Unhandled exception A'', ''Unhandled exception B''] ''Buffout 4'' ''Fallout 4''))
    \<noteq> ''Unhandled exception A''"
  by code_simp

section \<open>Properties of extract_segments and find_segments\<close>

subsection \<open>The loop keeps its invariant and never raises\<close>

lemma py_index_in_range: "0 \<le> i \<Longrightarrow> i < int (length xs) \<Longrightarrow> py_index xs i = Inr (xs ! nat i)"
  by (simp add: py_index_def)

lemma finish_iteration_inv:
  assumes "scan_inv cd sb st" "current_index st < int (length cd)"
  shows "scan_inv cd sb (finish_iteration cd st)"
  using assms
  by (auto simp: scan_inv_def finish_iteration_def Let_def less_Suc_eq)

lemma finish_iteration_back_inv:
  assumes "scan_inv cd sb st" "current_index st < int (length cd)" "\<not> collecting st"
  shows "scan_inv cd sb (finish_iteration cd (st\<lparr>current_index := current_index st - 1\<rparr>))"
  using assms
  by (auto simp: scan_inv_def finish_iteration_def Let_def)


lemma toggle_boundary_inv:
  assumes "0 \<le> current_index st" "current_index st < int (length cd)"
    "segment_index st < length sb" "length (segments st) = segment_index st"
    "\<forall>j<length (segments st). marker_found cd sb j"
    "\<not> collecting st \<longrightarrow> marker_found cd sb (segment_index st)"
  shows "case toggle_boundary cd sb eof st of
           Inl e \<Rightarrow> False
         | Inr (Break st1) \<Rightarrow> scan_post cd sb (segments st1)
         | Inr (Next st1) \<Rightarrow> scan_inv cd sb st1"
proof -
  have idx: "py_index sb (int (segment_index st)) = Inr (sb ! segment_index st)"
    using assms(3) by (simp add: py_index_def)
  show ?thesis
  proof (cases "collecting st")
    case True
    then show ?thesis
      using assms unfolding toggle_boundary_def idx
      by (auto simp: Let_def scan_inv_def finish_iteration_def)
  next
    case False
    then show ?thesis
      using assms unfolding toggle_boundary_def idx
      by (auto simp: Let_def scan_inv_def scan_post_def finish_iteration_def less_Suc_eq)
  qed
qed

lemma extract_step_inv:
  assumes inv: "scan_inv cd sb st" and lt: "current_index st < int (length cd)"
  shows "case extract_step cd sb eof st of
           Inl e \<Rightarrow> False
         | Inr (Break st1) \<Rightarrow> scan_post cd sb (segments st1)
         | Inr (Next st1) \<Rightarrow> scan_inv cd sb st1"
proof -
  let ?line = "cd ! nat (current_index st)"
  have ge: "0 \<le> current_index st" using inv by (simp add: scan_inv_def)
  have idx: "py_index cd (current_index st) = Inr ?line"
    using ge lt by (rule py_index_in_range)
  have mem: "?line \<in> set cd" using ge lt by simp
  have len: "length (segments st) = segment_index st" using inv lt by (simp add: scan_inv_def)
  show ?thesis
  proof (cases "startswith ?line (current_boundary st)")
    case False
    then show ?thesis
      unfolding extract_step_def idx using finish_iteration_inv[OF inv lt] by simp
  next
    case hit: True
    show ?thesis
    proof (cases "collecting st")
      case True
      let ?st1 = "st\<lparr>segments := segments st @
                      [py_slice cd (segment_start_index st)
                         (if current_index st > 0 then current_index st - 1 else current_index st)],
                    segment_index := segment_index st + 1\<rparr>"
      have found: "\<forall>j<length (segments ?st1). marker_found cd sb j"
        using inv True len by (auto simp: scan_inv_def less_Suc_eq)
      show ?thesis
      proof (cases "segment_index st + 1 = length sb")
        case True
        then show ?thesis
          unfolding extract_step_def idx using hit \<open>collecting st\<close> found len
          by (simp add: Let_def scan_post_def)
      next
        case False
        then have "segment_index ?st1 < length sb" using inv by (simp add: scan_inv_def)
        from toggle_boundary_inv[of ?st1 cd sb eof, OF _ _ this _ found]
        have "case toggle_boundary cd sb eof ?st1 of
                Inl e \<Rightarrow> False
              | Inr (Break st1) \<Rightarrow> scan_post cd sb (segments st1)
              | Inr (Next st1) \<Rightarrow> scan_inv cd sb st1"
          using ge lt len True by simp
        then show ?thesis
          unfolding extract_step_def idx using hit True False
          by (simp add: Let_def)
      qed
    next
      case False
      let ?st1 = "st\<lparr>segment_start_index :=
                       (if int (length cd) > current_index st
                        then current_index st + 1 else current_index st)\<rparr>"
      have bd: "current_boundary st = fst (sb ! segment_index st)"
        using inv False by (simp add: scan_inv_def)
      have mf: "marker_found cd sb (segment_index st)"
        unfolding marker_found_def using hit mem bd by auto
      have "case toggle_boundary cd sb eof ?st1 of
                Inl e \<Rightarrow> False
              | Inr (Break st1) \<Rightarrow> scan_post cd sb (segments st1)
              | Inr (Next st1) \<Rightarrow> scan_inv cd sb st1"
        by (rule toggle_boundary_inv) (use inv ge lt len mf in \<open>auto simp: scan_inv_def\<close>)
      then show ?thesis
        unfolding extract_step_def idx using hit False by simp
    qed
  qed
qed

lemma extract_loop_inv:
  "scan_inv cd sb st \<Longrightarrow> \<exists>segs. extract_loop cd sb eof st = Inr segs \<and> scan_post cd sb segs"
proof (induction cd sb eof st rule: extract_loop.induct)
  case (1 cd sb eof st)
  show ?case
  proof (cases "current_index st < int (length cd)")
    case False
    then show ?thesis
      using "1.prems" by (subst extract_loop.simps) (simp add: scan_inv_def scan_post_def)
  next
    case True
    note step = extract_step_inv[OF "1.prems" True, of eof]
    show ?thesis
    proof (cases "extract_step cd sb eof st")
      case (Inl e)
      with step show ?thesis by simp
    next
      case (Inr x)
      show ?thesis
      proof (cases x)
        case (Break st1)
        with step Inr True show ?thesis
          by (subst extract_loop.simps) simp
      next
        case (Next st1)
        with step Inr have "scan_inv cd sb st1" by simp
        from "1.IH"[OF True Inr Next this] show ?thesis
          using True Inr Next by (subst extract_loop.simps) simp
      qed
    qed
  qed
qed

lemma extract_segments_post:
  assumes "sb \<noteq> []"
  shows "\<exists>segs. extract_segments cd sb eof = Inr segs \<and> scan_post cd sb segs"
proof -
  have idx: "py_index sb 0 = Inr (sb ! 0)" using assms by (simp add: py_index_def)
  have "scan_inv cd sb \<lparr>segments = [], current_index = 0, segment_index = 0,
          collecting = False, segment_start_index = 0, current_boundary = fst (sb ! 0)\<rparr>"
    using assms by (simp add: scan_inv_def)
  from extract_loop_inv[OF this] show ?thesis
    unfolding extract_segments_def idx by simp
qed

text \<open>
  Claim C8. For every list of lines, the empty one included, \<open>find_segments\<close>
  returns a result (no branch of the model that stands for a raised exception is
  taken), the result holds the three header fields and exactly six segments, and
  the segment of every boundary pair whose start marker begins no line of the log
  is the empty list.
\<close>

theorem find_segments_never_raises:
  "\<exists>segs. find_segments crash_data crashgen_name xse_acronym game_root_name =
            Inr (fst (parse_crash_header crash_data crashgen_name game_root_name),
                 fst (snd (parse_crash_header crash_data crashgen_name game_root_name)),
                 snd (snd (parse_crash_header crash_data crashgen_name game_root_name)),
                 segs)
          \<and> length segs = 6
          \<and> (\<forall>j<6. (\<forall>l\<in>set crash_data.
                        \<not> startswith l (fst (boundaries_of xse_acronym ! j)))
                     \<longrightarrow> segs ! j = [])"
proof -
  let ?sb = "boundaries_of xse_acronym"
  have len: "length ?sb = 6" by (simp add: boundaries_of_def)
  then have "?sb \<noteq> []" by auto
  from extract_segments_post[OF this, of crash_data "''EOF''"]
  obtain segs0 where ex: "extract_segments crash_data ?sb ''EOF'' = Inr segs0"
    and post: "scan_post crash_data ?sb segs0" by blast
  let ?p = "if segs0 \<noteq> [] then map (map strip) segs0 else segs0"
  let ?segs = "?p @ replicate (6 - length segs0) []"
  have le: "length segs0 \<le> 6" using post len by (simp add: scan_post_def)
  have lp: "length ?p = length segs0" by simp
  have fs: "find_segments crash_data crashgen_name xse_acronym game_root_name =
            Inr (fst (parse_crash_header crash_data crashgen_name game_root_name),
                 fst (snd (parse_crash_header crash_data crashgen_name game_root_name)),
                 snd (snd (parse_crash_header crash_data crashgen_name game_root_name)),
                 ?segs)"
    unfolding find_segments_def Let_def ex sum.case len using le
    by (auto simp: nat_diff_distrib)
  have l6: "length ?segs = 6" using le by simp
  have empty: "?segs ! j = []"
    if j: "j < 6" and miss: "\<forall>l\<in>set crash_data. \<not> startswith l (fst (?sb ! j))" for j
  proof -
    have "\<not> marker_found crash_data ?sb j" using miss by (simp add: marker_found_def)
    then have "length segs0 \<le> j" using post by (auto simp: scan_post_def not_less[symmetric])
    then show ?thesis using j lp by (simp add: nth_append del: map_eq_conv)
  qed
  show ?thesis using fs l6 empty by blast
qed

text \<open>
  The theorem at a log with no \<^verbatim>\<open>[Compatibility]\<close> and no
  \<^verbatim>\<open>PROBABLE CALL STACK:\<close> line: segments 0 and 2 are empty.
\<close>

theorem find_segments_never_raises_witness:
  "\<exists>segs. find_segments [''junk'', ''SYSTEM SPECS:'', ''x''] ''Buffout 4'' ''F4SE'' ''Fallout 4''
            = Inr (''UNKNOWN'', ''UNKNOWN'', ''UNKNOWN'', segs)
          \<and> length segs = 6 \<and> segs ! 0 = [] \<and> segs ! 2 = []"
proof -
  obtain segs where
    a: "find_segments [''junk'', ''SYSTEM SPECS:'', ''x''] ''Buffout 4'' ''F4SE'' ''Fallout 4'' =
          Inr (fst (parse_crash_header [''junk'', ''SYSTEM SPECS:'', ''x''] ''Buffout 4'' ''Fallout 4''),
               fst (snd (parse_crash_header [''junk'', ''SYSTEM SPECS:'', ''x''] ''Buffout 4'' ''Fallout 4'')),
               snd (snd (parse_crash_header [''junk'', ''SYSTEM SPECS:'', ''x''] ''Buffout 4'' ''Fallout 4'')),
               segs)"
    and b: "length segs = 6"
    and c: "\<forall>j<6. (\<forall>l\<in>set [''junk'', ''SYSTEM SPECS:'', ''x''].
                        \<not> startswith l (fst (boundaries_of ''F4SE'' ! j)))
                     \<longrightarrow> segs ! j = []"
    using find_segments_never_raises[of "[''junk'', ''SYSTEM SPECS:'', ''x'']" "''Buffout 4''" "''F4SE''" "''Fallout 4''"]
    by blast
  have h: "parse_crash_header [''junk'', ''SYSTEM SPECS:'', ''x''] ''Buffout 4'' ''Fallout 4''
           = (''UNKNOWN'', ''UNKNOWN'', ''UNKNOWN'')"
    by code_simp
  have "segs ! 0 = []"
    using spec[OF c, of 0] by (simp add: boundaries_of_def startswith_def)
  moreover have "segs ! 2 = []"
    using spec[OF c, of 2] by (simp add: boundaries_of_def startswith_def)
  ultimately show ?thesis using a b unfolding h by simp
qed

subsection \<open>Segments of a complete log\<close>

lemma py_index_append: "py_index (A @ x # R) (int (length A)) = Inr x"
  by (simp add: py_index_def)

lemma loop_next:
  "current_index st < int (length cd) \<Longrightarrow> extract_step cd sb eof st = Inr (Next st1) \<Longrightarrow>
   extract_loop cd sb eof st = extract_loop cd sb eof st1"
  by (subst extract_loop.simps) simp

lemma loop_break:
  "current_index st < int (length cd) \<Longrightarrow> extract_step cd sb eof st = Inr (Break st1) \<Longrightarrow>
   extract_loop cd sb eof st = Inr (segments st1)"
  by (subst extract_loop.simps) simp

lemma loop_done:
  "\<not> current_index st < int (length cd) \<Longrightarrow> extract_loop cd sb eof st = Inr (segments st)"
  by (subst extract_loop.simps) simp

lemma step_no_hit:
  assumes "current_index st = int (length A)" "cd = A @ x # R"
    "\<not> startswith x (current_boundary st)" "collecting st \<longrightarrow> R \<noteq> []"
  shows "extract_step cd sb eof st = Inr (Next (st\<lparr>current_index := int (length A) + 1\<rparr>))"
proof -
  have idx: "py_index cd (current_index st) = Inr x"
    using assms(1,2) by (simp add: py_index_append)
  have "collecting st \<longrightarrow> 0 < length R" using assms(4) by simp
  then show ?thesis
    unfolding extract_step_def idx using assms(1,2,3)
    by (auto simp: finish_iteration_def)
qed

lemma loop_skip:
  "current_index st = int (length A) \<Longrightarrow> cd = A @ P @ R \<Longrightarrow> collecting st \<longrightarrow> R \<noteq> [] \<Longrightarrow>
   \<forall>l\<in>set P. \<not> startswith l (current_boundary st) \<Longrightarrow>
   extract_loop cd sb eof st =
   extract_loop cd sb eof (st\<lparr>current_index := int (length A + length P)\<rparr>)"
proof (induction P arbitrary: A st)
  case Nil
  then show ?case by (cases st) simp
next
  case (Cons x P)
  have cd: "cd = A @ x # (P @ R)" using Cons.prems by simp
  have lt: "current_index st < int (length cd)" using Cons.prems(1) cd by simp
  have "extract_step cd sb eof st = Inr (Next (st\<lparr>current_index := int (length A) + 1\<rparr>))"
    by (rule step_no_hit[OF Cons.prems(1) cd]) (use Cons.prems in auto)
  from loop_next[OF lt this]
  have "extract_loop cd sb eof st =
        extract_loop cd sb eof (st\<lparr>current_index := int (length A) + 1\<rparr>)" .
  also have "\<dots> = extract_loop cd sb eof
      (st\<lparr>current_index := int (length A) + 1\<rparr>\<lparr>current_index := int (length (A @ [x]) + length P)\<rparr>)"
    by (rule Cons.IH) (use Cons.prems in auto)
  finally show ?case by simp
qed


lemma nat_int_arith:
  "nat (int n + 1) = Suc n" "nat (1 + int n) = Suc n" "nat (int n + int k) = n + k"
  by linarith+

lemma step_start_hit:
  assumes "\<not> collecting st" "current_index st = int (length A)" "cd = A @ m # R"
    "startswith m (current_boundary st)" "segment_index st < length sb"
    "snd (sb ! segment_index st) \<noteq> eof" "R \<noteq> []"
  shows "extract_step cd sb eof st =
         Inr (Next (st\<lparr>current_index := int (length A) + 1, collecting := True,
                        segment_start_index := int (length A) + 1,
                        current_boundary := snd (sb ! segment_index st)\<rparr>))"
proof -
  have idx: "py_index cd (current_index st) = Inr m"
    using assms(2,3) by (simp add: py_index_append)
  have bidx: "\<And>s. py_index sb (int (segment_index (st\<lparr>segment_start_index := s\<rparr>)))
                 = Inr (sb ! segment_index st)"
    using assms(5) by (simp add: py_index_def)
  have "0 < length R" using assms(7) by simp
  then show ?thesis
    unfolding extract_step_def idx toggle_boundary_def bidx using assms(1-6)
    by (auto simp: finish_iteration_def Let_def)
qed

lemma step_start_hit_eof:
  assumes "\<not> collecting st" "current_index st = int (length A)" "cd = A @ m # R"
    "startswith m (current_boundary st)" "segment_index st < length sb"
    "snd (sb ! segment_index st) = eof"
  shows "\<exists>st1. extract_step cd sb eof st = Inr (Break st1) \<and> segments st1 = segments st @ [R]"
proof -
  have idx: "py_index cd (current_index st) = Inr m"
    using assms(2,3) by (simp add: py_index_append)
  have bidx: "\<And>s. py_index sb (int (segment_index (st\<lparr>segment_start_index := s\<rparr>)))
                 = Inr (sb ! segment_index st)"
    using assms(5) by (simp add: py_index_def)
  show ?thesis
    unfolding extract_step_def idx toggle_boundary_def bidx using assms
    by (auto simp: Let_def py_slice_from_def slice_bound_def nat_int_arith)
qed

lemma step_end_hit:
  assumes "collecting st" "current_index st = int (length A)" "cd = A @ m # R" "A \<noteq> []"
    "startswith m (current_boundary st)" "segment_index st + 1 < length sb"
  shows "extract_step cd sb eof st =
         Inr (Next (st\<lparr>segments := segments st @
                          [py_slice cd (segment_start_index st) (int (length A) - 1)],
                        segment_index := segment_index st + 1, collecting := False,
                        current_boundary := fst (sb ! (segment_index st + 1))\<rparr>))"
proof -
  have idx: "py_index cd (current_index st) = Inr m"
    using assms(2,3) by (simp add: py_index_append)
  have bidx: "\<And>s. py_index sb (int (segment_index
                    (st\<lparr>segments := s, segment_index := segment_index st + 1\<rparr>)))
                 = Inr (sb ! (segment_index st + 1))"
    using assms(6) by (simp add: py_index_def nat_int_arith)
  have "0 < length A" using assms(4) by simp
  then show ?thesis
    unfolding extract_step_def idx toggle_boundary_def Let_def bidx using assms(1,2,3,5,6)
    by (cases st) (auto simp: finish_iteration_def Let_def)
qed

lemma slice_body:
  "py_slice (A @ m # b @ m' # R) (int (length A) + 1) (int (length A + 1 + length b) - 1)
   = butlast b"
  by (simp add: py_slice_def slice_bound_def butlast_conv_take nat_int_arith)


lemma loop_block:
  assumes cd: "cd = A @ m # b @ m' # R"
    and m: "startswith m (fst (sb ! k))"
    and b: "\<forall>l\<in>set b. \<not> startswith l (snd (sb ! k))"
    and m': "startswith m' (snd (sb ! k))"
    and k: "k + 1 < length sb" and ne: "snd (sb ! k) \<noteq> eof"
    and n: "n = length A + 1 + length b"
  shows "extract_loop cd sb eof
           \<lparr>segments = segs, current_index = int (length A), segment_index = k,
            collecting = False, segment_start_index = s, current_boundary = fst (sb ! k)\<rparr>
       = extract_loop cd sb eof
           \<lparr>segments = segs @ [butlast b], current_index = int n,
            segment_index = k + 1, collecting = False,
            segment_start_index = int (length A) + 1,
            current_boundary = fst (sb ! (k + 1))\<rparr>"
proof -
  let ?st0 = "\<lparr>segments = segs, current_index = int (length A), segment_index = k,
            collecting = False, segment_start_index = s, current_boundary = fst (sb ! k)\<rparr>"
  let ?st1 = "\<lparr>segments = segs, current_index = int (length A) + 1, segment_index = k,
            collecting = True, segment_start_index = int (length A) + 1,
            current_boundary = snd (sb ! k)\<rparr>"
  let ?st2 = "\<lparr>segments = segs, current_index = int n, segment_index = k,
            collecting = True, segment_start_index = int (length A) + 1,
            current_boundary = snd (sb ! k)\<rparr>"
  have "extract_step cd sb eof ?st0 = Inr (Next ?st1)"
    using step_start_hit[of ?st0 A cd m "b @ m' # R" sb eof] cd m k ne by simp
  then have e1: "extract_loop cd sb eof ?st0 = extract_loop cd sb eof ?st1"
    by (rule loop_next[rotated]) (simp add: cd)
  have e2: "extract_loop cd sb eof ?st1 = extract_loop cd sb eof ?st2"
    using loop_skip[of ?st1 "A @ [m]" cd b "m' # R" sb eof] cd b n by simp
  have "extract_step cd sb eof ?st2 =
        Inr (Next (?st2\<lparr>segments := segs @ [py_slice cd (int (length A) + 1) (int n - 1)],
                        segment_index := k + 1, collecting := False,
                        current_boundary := fst (sb ! (k + 1))\<rparr>))"
    using step_end_hit[of ?st2 "A @ m # b" cd m' R sb eof] cd m' k n by simp
  then have e3: "extract_loop cd sb eof ?st2 =
      extract_loop cd sb eof (?st2\<lparr>segments := segs @ [py_slice cd (int (length A) + 1) (int n - 1)],
                        segment_index := k + 1, collecting := False,
                        current_boundary := fst (sb ! (k + 1))\<rparr>)"
    by (rule loop_next[rotated]) (simp add: cd n)
  have sl: "py_slice cd (int (length A) + 1) (int n - 1) = butlast b"
    unfolding cd n by (rule slice_body)
  show ?thesis
    unfolding e1 e2 e3 sl by simp
qed

lemma loop_last:
  assumes cd: "cd = A @ m # R" and m: "startswith m (fst (sb ! k))"
    and k: "k < length sb" and e: "snd (sb ! k) = eof"
  shows "extract_loop cd sb eof
           \<lparr>segments = segs, current_index = int (length A), segment_index = k,
            collecting = False, segment_start_index = s, current_boundary = fst (sb ! k)\<rparr>
       = Inr (segs @ [R])"
proof -
  let ?st0 = "\<lparr>segments = segs, current_index = int (length A), segment_index = k,
            collecting = False, segment_start_index = s, current_boundary = fst (sb ! k)\<rparr>"
  obtain st1 where "extract_step cd sb eof ?st0 = Inr (Break st1)" "segments st1 = segs @ [R]"
    using step_start_hit_eof[of ?st0 A cd m R sb eof] cd m k e by auto
  then show ?thesis
    using loop_break[of ?st0 cd sb eof st1] by (simp add: cd)
qed

text \<open>
  Claim C1, as the code has it. Take six boundary pairs in which each end marker
  is the start marker of the next pair and the last end marker is the end-of-file
  marker, and a log made of a preamble without the first marker followed by six
  marker lines in order, each followed by a body in which the next marker does
  not occur. Then \<open>extract_segments\<close> returns exactly six segments. None of
  them holds a marker line. Each of the first five is the body between its two
  marker lines without the last line of that body, because the slice ends at
  \<open>current_index - 1\<close>; the sixth is every line after its start marker.
\<close>

theorem extract_segments_well_ordered:
  assumes sb: "sb = [(ka, kb), (kb, kc), (kc, kd), (kd, ke), (ke, kf), (kf, eof)]"
    and ne: "kb \<noteq> eof" "kc \<noteq> eof" "kd \<noteq> eof" "ke \<noteq> eof" "kf \<noteq> eof"
    and cd: "cd = pre @ ma # ba @ mb # bb @ mc # bc @ md # bd @ me # be @ mf # bf"
    and pre: "\<forall>l\<in>set pre. \<not> startswith l ka"
    and ms: "startswith ma ka" "startswith mb kb" "startswith mc kc"
            "startswith md kd" "startswith me ke" "startswith mf kf"
    and bs: "\<forall>l\<in>set ba. \<not> startswith l kb" "\<forall>l\<in>set bb. \<not> startswith l kc"
            "\<forall>l\<in>set bc. \<not> startswith l kd" "\<forall>l\<in>set bd. \<not> startswith l ke"
            "\<forall>l\<in>set be. \<not> startswith l kf"
  shows "extract_segments cd sb eof =
         Inr [butlast ba, butlast bb, butlast bc, butlast bd, butlast be, bf]"
proof -
  let ?A0 = "pre" and ?A1 = "pre @ ma # ba" and ?A2 = "pre @ ma # ba @ mb # bb"
  let ?A3 = "pre @ ma # ba @ mb # bb @ mc # bc"
  let ?A4 = "pre @ ma # ba @ mb # bb @ mc # bc @ md # bd"
  let ?A5 = "pre @ ma # ba @ mb # bb @ mc # bc @ md # bd @ me # be"
  let ?st = "\<lambda>segs i k s. \<lparr>segments = segs, current_index = int i, segment_index = k,
            collecting = False, segment_start_index = s, current_boundary = fst (sb ! k)\<rparr>"
  have idx: "py_index sb 0 = Inr (ka, kb)" by (simp add: sb py_index_def)
  have s0: "extract_loop cd sb eof (?st [] 0 0 0) = extract_loop cd sb eof (?st [] (length ?A0) 0 0)"
    using loop_skip[of "?st [] 0 0 0" "[]" cd pre _ sb eof] cd pre by (simp add: sb)
  have s1: "extract_loop cd sb eof (?st [] (length ?A0) 0 0)
      = extract_loop cd sb eof (?st [butlast ba] (length ?A1) 1 (int (length ?A0) + 1))"
    using loop_block[of cd ?A0 ma ba mb _ sb 0 eof "length ?A1" "[]" 0] cd ms bs ne
    by (simp add: sb eval_nat_numeral)
  have s2: "extract_loop cd sb eof (?st [butlast ba] (length ?A1) 1 (int (length ?A0) + 1))
      = extract_loop cd sb eof (?st [butlast ba, butlast bb] (length ?A2) 2 (int (length ?A1) + 1))"
    using loop_block[of cd ?A1 mb bb mc _ sb 1 eof "length ?A2" "[butlast ba]"] cd ms bs ne
    by (simp add: sb eval_nat_numeral)
  have s3: "extract_loop cd sb eof (?st [butlast ba, butlast bb] (length ?A2) 2 (int (length ?A1) + 1))
      = extract_loop cd sb eof (?st [butlast ba, butlast bb, butlast bc] (length ?A3) 3 (int (length ?A2) + 1))"
    using loop_block[of cd ?A2 mc bc md _ sb 2 eof "length ?A3" "[butlast ba, butlast bb]"] cd ms bs ne
    by (simp add: sb eval_nat_numeral)
  have s4: "extract_loop cd sb eof (?st [butlast ba, butlast bb, butlast bc] (length ?A3) 3 (int (length ?A2) + 1))
      = extract_loop cd sb eof (?st [butlast ba, butlast bb, butlast bc, butlast bd] (length ?A4) 4 (int (length ?A3) + 1))"
    using loop_block[of cd ?A3 md bd me _ sb 3 eof "length ?A4" "[butlast ba, butlast bb, butlast bc]"] cd ms bs ne
    by (simp add: sb eval_nat_numeral)
  have s5: "extract_loop cd sb eof (?st [butlast ba, butlast bb, butlast bc, butlast bd] (length ?A4) 4 (int (length ?A3) + 1))
      = extract_loop cd sb eof (?st [butlast ba, butlast bb, butlast bc, butlast bd, butlast be] (length ?A5) 5 (int (length ?A4) + 1))"
    using loop_block[of cd ?A4 me be mf _ sb 4 eof "length ?A5" "[butlast ba, butlast bb, butlast bc, butlast bd]"] cd ms bs ne
    by (simp add: sb eval_nat_numeral)
  have s6: "extract_loop cd sb eof (?st [butlast ba, butlast bb, butlast bc, butlast bd, butlast be] (length ?A5) 5 (int (length ?A4) + 1))
      = Inr ([butlast ba, butlast bb, butlast bc, butlast bd, butlast be] @ [bf])"
    using loop_last[of cd ?A5 mf bf sb 5 eof] cd ms by (simp add: sb)
  show ?thesis
    unfolding extract_segments_def idx sum.case
    using s0 s1 s2 s3 s4 s5 s6 by (simp add: sb)
qed

text \<open>
  The theorem at a log in the format of the crash generator, where an empty line
  precedes every section header.
\<close>

theorem extract_segments_well_ordered_witness:
  "extract_segments
     [''junk'', [CHR 0x09] @ ''[Compatibility]'', ''a'', '''', ''SYSTEM SPECS:'', ''b'', '''',
      ''PROBABLE CALL STACK:'', ''c'', '''', ''MODULES:'', ''d'', '''', ''F4SE PLUGINS:'',
      ''e'', '''', ''PLUGINS:'', ''f'', '''']
     (boundaries_of ''F4SE'') ''EOF''
   = Inr [[''a''], [''b''], [''c''], [''d''], [''e''], [''f'', '''']]"
proof -
  have u: "upper ''F4SE'' = ''F4SE''" by code_simp
  show ?thesis
    using extract_segments_well_ordered[where sb = "boundaries_of ''F4SE''"
        and ka = "[CHR 0x09] @ ''[Compatibility]''" and kb = "''SYSTEM SPECS:''"
        and kc = "''PROBABLE CALL STACK:''" and kd = "''MODULES:''"
        and ke = "''F4SE PLUGINS:''" and kf = "''PLUGINS:''" and eof = "''EOF''"
        and pre = "[''junk'']" and ma = "[CHR 0x09] @ ''[Compatibility]''"
        and ba = "[''a'', '''']" and mb = "''SYSTEM SPECS:''" and bb = "[''b'', '''']"
        and mc = "''PROBABLE CALL STACK:''" and bc = "[''c'', '''']"
        and md = "''MODULES:''" and bd = "[''d'', '''']"
        and me = "''F4SE PLUGINS:''" and be = "[''e'', '''']"
        and mf = "''PLUGINS:''" and bf = "[''f'', '''']"
        and cd = "[''junk'', [CHR 0x09] @ ''[Compatibility]'', ''a'', '''', ''SYSTEM SPECS:'', ''b'', '''',
      ''PROBABLE CALL STACK:'', ''c'', '''', ''MODULES:'', ''d'', '''', ''F4SE PLUGINS:'',
      ''e'', '''', ''PLUGINS:'', ''f'', '''']"]
    by (simp add: boundaries_of_def u startswith_def)
qed

text \<open>
  Claim C1 as stated fails. Lines \<^verbatim>\<open>a\<close> and \<^verbatim>\<open>b\<close> stand
  strictly between the first two marker lines, and only \<^verbatim>\<open>a\<close> is
  returned; the one-line bodies of the next four sections are returned empty.
\<close>

theorem extract_segments_between_markers_counterexample:
  "extract_segments
     [[CHR 0x09] @ ''[Compatibility]'', ''a'', ''b'', ''SYSTEM SPECS:'', ''c'',
      ''PROBABLE CALL STACK:'', ''d'', ''MODULES:'', ''e'', ''F4SE PLUGINS:'', ''f'',
      ''PLUGINS:'', ''g'']
     (boundaries_of ''F4SE'') ''EOF''
   = Inr [[''a''], [], [], [], [], [''g'']]
   \<and> extract_segments
     [[CHR 0x09] @ ''[Compatibility]'', ''a'', ''b'', ''SYSTEM SPECS:'', ''c'',
      ''PROBABLE CALL STACK:'', ''d'', ''MODULES:'', ''e'', ''F4SE PLUGINS:'', ''f'',
      ''PLUGINS:'', ''g'']
     (boundaries_of ''F4SE'') ''EOF''
   \<noteq> Inr [[''a'', ''b''], [''c''], [''d''], [''e''], [''f''], [''g'']]"
  by code_simp

section \<open>Properties of suspect_scan_stack\<close>

lemma process_signal_not:
  "py_in s cs \<Longrightarrow> process_signal (''NOT|'' @ s) me cs ms = (True, ms)"
  by (simp add: process_signal_def)

lemma process_signals_not:
  "''NOT|'' @ s \<in> set sigs \<Longrightarrow> py_in s cs \<Longrightarrow> fst (process_signals sigs me cs ms)"
proof (induction sigs arbitrary: ms)
  case Nil
  then show ?case by simp
next
  case (Cons x sigs)
  show ?case
  proof (cases "process_signal x me cs ms")
    case (Pair stop ms1)
    show ?thesis
    proof (cases stop)
      case True
      with Pair show ?thesis by simp
    next
      case False
      with Pair Cons.prems have "x \<noteq> ''NOT|'' @ s"
        using process_signal_not[of s cs me ms] by auto
      with Cons.prems have "''NOT|'' @ s \<in> set sigs" by simp
      from Cons.IH[OF this Cons.prems(2)] Pair False show ?thesis by simp
    qed
  qed
qed

lemma suspect_scan_rules_skip:
  assumes "fst (process_signals signal_list me cs
                  \<lparr>has_required_item = False, error_req_found = False,
                   error_opt_found = False, stack_found = False\<rparr>)"
    and "split_once '' | '' error_key \<noteq> None"
  shows "suspect_scan_rules (before @ (error_key, signal_list) # after) me cs w acc =
         suspect_scan_rules (before @ after) me cs w acc"
proof (induction before arbitrary: acc)
  case Nil
  show ?case using assms by (auto split: prod.splits)
next
  case (Cons r before)
  show ?case
    by (cases r) (simp add: Cons.IH split: option.splits prod.splits bool.splits)
qed

text \<open>
  Claim C5. Let a rule of the rule table hold a signal \<^verbatim>\<open>NOT|s\<close> whose
  string occurs in the call stack text, and let its key have the form
  \<^verbatim>\<open>severity | name\<close>. Whatever its other signals are and wherever they
  stand, the scan gives the report and the flag it gives for the table without
  that rule: the rule adds nothing to the report.
\<close>

theorem not_signal_disqualifies_rule:
  assumes "''NOT|'' @ s \<in> set signal_list"
    and "py_in s segment_callstack_intact"
    and "split_once '' | '' error_key \<noteq> None"
  shows "suspect_scan_stack (before @ (error_key, signal_list) # after) crashlog_mainerror
           segment_callstack_intact autoscan_report max_warn_length =
         suspect_scan_stack (before @ after) crashlog_mainerror
           segment_callstack_intact autoscan_report max_warn_length"
  unfolding suspect_scan_stack_def
  by (rule suspect_scan_rules_skip[OF process_signals_not[OF assms(1,2)] assms(3)])

text \<open>
  The theorem at a rule whose two other signals match, one before and one after
  the NOT signal: the report is that of the remaining rule alone.
\<close>

theorem not_signal_disqualifies_rule_witness:
  "suspect_scan_stack
     [(''5 | Foo Crash'', [''foo'', ''NOT|bar'', ''ME-OPT|EXCEPTION'']),
      (''3 | Baz Crash'', [''baz''])]
     ''Unhandled exception EXCEPTION_ACCESS'' ''foo bar baz'' [] 12
   = Inr ([''# Checking for Baz Crash... SUSPECT FOUND! > Severity : 3 # '' @ [CHR 0x0A] @
           ''-----'' @ [CHR 0x0A]], True)"
proof -
  have "suspect_scan_stack
     ([] @ (''5 | Foo Crash'', [''foo'', ''NOT|bar'', ''ME-OPT|EXCEPTION'']) #
      [(''3 | Baz Crash'', [''baz''])])
     ''Unhandled exception EXCEPTION_ACCESS'' ''foo bar baz'' [] 12
    = suspect_scan_stack ([] @ [(''3 | Baz Crash'', [''baz''])])
     ''Unhandled exception EXCEPTION_ACCESS'' ''foo bar baz'' [] 12"
    by (rule not_signal_disqualifies_rule[where s = "''bar''"]) simp_all
  also have "\<dots> = Inr ([''# Checking for Baz Crash... SUSPECT FOUND! > Severity : 3 # '' @ [CHR 0x0A] @
           ''-----'' @ [CHR 0x0A]], True)"
    by code_simp
  finally show ?thesis by simp
qed

lemma quiet_signal_noop:
  "quiet_signal x me cs \<Longrightarrow> process_signal x me cs ms = (False, ms)"
  by (auto simp: quiet_signal_def process_signal_def split: option.splits)

lemma quiet_signals_noop:
  "\<forall>x\<in>set xs. quiet_signal x me cs \<Longrightarrow> process_signals xs me cs ms = (False, ms)"
  by (induction xs) (simp_all add: quiet_signal_noop)

lemma process_signals_append:
  "process_signals (xs @ ys) me cs ms =
     (case process_signals xs me cs ms of
        (True, ms1) \<Rightarrow> (True, ms1)
      | (False, ms1) \<Rightarrow> process_signals ys me cs ms1)"
  by (induction xs arbitrary: ms) (auto split: prod.splits bool.splits)

lemma split_once_bar:
  "CHR ''|'' \<notin> set m \<Longrightarrow> split_once ''|'' (m @ CHR ''|'' # s) = Some (m, s)"
  by (induction m) auto

lemma isdecimal_facts:
  assumes "isdecimal m"
  shows "CHR ''|'' \<notin> set m" "m \<noteq> ''ME-REQ''" "m \<noteq> ''ME-OPT''" "m \<noteq> ''NOT''"
  using assms by (auto simp: isdecimal_def less_eq_char_def)

lemma process_signal_numeric:
  assumes "isdecimal m"
  shows "process_signal (m @ CHR ''|'' # s) me cs ms =
         (False, if py_int m \<le> py_count cs s then ms\<lparr>stack_found := True\<rparr> else ms)"
  unfolding process_signal_def split_once_bar[OF isdecimal_facts(1)[OF assms]]
  using assms isdecimal_facts(2-4)[OF assms] by simp

lemma process_signals_single_numeric:
  assumes "isdecimal m" "\<forall>x\<in>set xs \<union> set ys. quiet_signal x me cs"
  shows "process_signals (xs @ (m @ CHR ''|'' # s) # ys) me cs ms =
         (False, if py_int m \<le> py_count cs s then ms\<lparr>stack_found := True\<rparr> else ms)"
proof -
  have a: "process_signals xs me cs ms = (False, ms)"
    and b: "\<And>ms1. process_signals ys me cs ms1 = (False, ms1)"
    using assms(2) by (simp_all add: quiet_signals_noop)
  show ?thesis
    by (simp add: process_signals_append a b process_signal_numeric[OF assms(1)])
qed

lemma unmatched_signal_step:
  "unmatched_signal x me cs \<Longrightarrow>
   \<exists>r. process_signal x me cs ms = (False, ms\<lparr>has_required_item := r\<rparr>)"
proof (cases "split_once ''|'' x")
  case None
  assume "unmatched_signal x me cs"
  with None have "process_signal x me cs ms = (False, ms\<lparr>has_required_item := has_required_item ms\<rparr>)"
    by (simp add: unmatched_signal_def process_signal_def)
  then show ?thesis by blast
next
  case (Some p)
  assume u: "unmatched_signal x me cs"
  obtain m s where p: "p = (m, s)" by (cases p)
  show ?thesis
  proof (cases "m = ''ME-REQ''")
    case True
    with u Some p have "process_signal x me cs ms = (False, ms\<lparr>has_required_item := True\<rparr>)"
      by (simp add: unmatched_signal_def process_signal_def)
    then show ?thesis by blast
  next
    case False
    with u Some p have "process_signal x me cs ms = (False, ms\<lparr>has_required_item := has_required_item ms\<rparr>)"
      by (auto simp: unmatched_signal_def process_signal_def)
    then show ?thesis by blast
  qed
qed

lemma unmatched_signals_steps:
  "\<forall>x\<in>set xs. unmatched_signal x me cs \<Longrightarrow>
   \<exists>r. process_signals xs me cs ms = (False, ms\<lparr>has_required_item := r\<rparr>)"
proof (induction xs arbitrary: ms)
  case Nil
  have "process_signals [] me cs ms = (False, ms\<lparr>has_required_item := has_required_item ms\<rparr>)"
    by simp
  then show ?case by blast
next
  case (Cons x xs)
  from Cons.prems obtain r where r: "process_signal x me cs ms = (False, ms\<lparr>has_required_item := r\<rparr>)"
    using unmatched_signal_step[of x me cs ms] by auto
  from Cons.prems have "\<forall>x\<in>set xs. unmatched_signal x me cs" by simp
  from Cons.IH[OF this, of "ms\<lparr>has_required_item := r\<rparr>"]
  obtain r' where "process_signals xs me cs (ms\<lparr>has_required_item := r\<rparr>)
      = (False, ms\<lparr>has_required_item := r\<rparr>\<lparr>has_required_item := r'\<rparr>)" by blast
  with r have "process_signals (x # xs) me cs ms = (False, ms\<lparr>has_required_item := r'\<rparr>)"
    by simp
  then show ?case by blast
qed

lemma process_signals_numeric_below:
  assumes "isdecimal m" "\<forall>x\<in>set xs \<union> set ys. unmatched_signal x me cs"
    and "py_count cs s < py_int m"
  shows "\<exists>r. process_signals (xs @ (m @ CHR ''|'' # s) # ys) me cs ms =
             (False, ms\<lparr>has_required_item := r\<rparr>)"
proof -
  from assms(2) obtain r where a: "process_signals xs me cs ms = (False, ms\<lparr>has_required_item := r\<rparr>)"
    using unmatched_signals_steps[of xs me cs ms] by auto
  have b: "process_signal (m @ CHR ''|'' # s) me cs (ms\<lparr>has_required_item := r\<rparr>)
           = (False, ms\<lparr>has_required_item := r\<rparr>)"
    using assms(3) by (simp add: process_signal_numeric[OF assms(1)])
  from assms(2) obtain r' where c: "process_signals ys me cs (ms\<lparr>has_required_item := r\<rparr>)
      = (False, ms\<lparr>has_required_item := r\<rparr>\<lparr>has_required_item := r'\<rparr>)"
    using unmatched_signals_steps[of ys me cs "ms\<lparr>has_required_item := r\<rparr>"] by auto
  have "process_signals (xs @ (m @ CHR ''|'' # s) # ys) me cs ms =
        (False, ms\<lparr>has_required_item := r'\<rparr>)"
    by (simp add: process_signals_append a b c)
  then show ?thesis by blast
qed

text \<open>
  Claim C6, as the code has it. Take a rule with a well-formed key and one
  numeric signal \<^verbatim>\<open>N|s\<close>, with \<open>N\<close> written in at most 4300 digits (the
  interpreter's default limit for \<^verbatim>\<open>int\<close>). If none of its other signals
  matches (no ME-REQ, ME-OPT or plain signal matching, no NOT signal matching, no
  further numeric signal) and the call stack text holds \<open>s\<close> exactly \<open>N - 1\<close>
  times, counted without overlap, the rule adds nothing to the report. If
  moreover the rule has no ME-REQ signal at all and the call stack text holds \<open>s\<close>
  exactly \<open>N\<close> times, the rule's line is appended and the scan reports a
  suspect.
\<close>

theorem numeric_signal_threshold:
  assumes "split_once '' | '' error_key = Some (error_severity, error_name)"
    and "isdecimal n_text" and "length n_text \<le> 4300"
    and "signal_list = others_before @ [n_text @ ''|'' @ s] @ others_after"
  shows "((\<forall>x\<in>set others_before \<union> set others_after.
             unmatched_signal x crashlog_mainerror segment_callstack_intact) \<and>
          py_count segment_callstack_intact s + 1 = py_int n_text \<longrightarrow>
            suspect_scan_stack [(error_key, signal_list)] crashlog_mainerror
              segment_callstack_intact autoscan_report max_warn_length
            = Inr (autoscan_report, False))
       \<and> ((\<forall>x\<in>set others_before \<union> set others_after.
             quiet_signal x crashlog_mainerror segment_callstack_intact) \<and>
          py_count segment_callstack_intact s = py_int n_text \<longrightarrow>
            suspect_scan_stack [(error_key, signal_list)] crashlog_mainerror
              segment_callstack_intact autoscan_report max_warn_length
            = Inr (autoscan_report @
                     [suspect_message error_name error_severity max_warn_length], True))"
proof (intro conjI impI)
  assume a: "(\<forall>x\<in>set others_before \<union> set others_after.
             unmatched_signal x crashlog_mainerror segment_callstack_intact) \<and>
          py_count segment_callstack_intact s + 1 = py_int n_text"
  then have lt: "py_count segment_callstack_intact s < py_int n_text" by simp
  from a process_signals_numeric_below[OF assms(2) _ lt]
  obtain r where "process_signals (others_before @ (n_text @ CHR ''|'' # s) # others_after)
        crashlog_mainerror segment_callstack_intact
        \<lparr>has_required_item = False, error_req_found = False,
         error_opt_found = False, stack_found = False\<rparr>
      = (False, \<lparr>has_required_item = False, error_req_found = False,
         error_opt_found = False, stack_found = False\<rparr>\<lparr>has_required_item := r\<rparr>)"
    by blast
  then show "suspect_scan_stack [(error_key, signal_list)] crashlog_mainerror
              segment_callstack_intact autoscan_report max_warn_length
            = Inr (autoscan_report, False)"
    unfolding suspect_scan_stack_def assms(4)
    by (simp add: assms(1) is_suspect_match_def)
next
  assume a: "(\<forall>x\<in>set others_before \<union> set others_after.
             quiet_signal x crashlog_mainerror segment_callstack_intact) \<and>
          py_count segment_callstack_intact s = py_int n_text"
  then have q: "\<forall>x\<in>set others_before \<union> set others_after.
             quiet_signal x crashlog_mainerror segment_callstack_intact" by simp
  show "suspect_scan_stack [(error_key, signal_list)] crashlog_mainerror
              segment_callstack_intact autoscan_report max_warn_length
            = Inr (autoscan_report @
                     [suspect_message error_name error_severity max_warn_length], True)"
    unfolding suspect_scan_stack_def assms(4)
    using a
    by (simp add: assms(1) process_signals_single_numeric[OF assms(2) q]
          is_suspect_match_def add_suspect_to_report_def append_or_extend_def)
qed

text \<open>
  The theorem at two rules: with an unmatched ME-REQ signal and one occurrence
  short of the count, and with no ME-REQ signal and the exact count.
\<close>

theorem numeric_signal_threshold_witness:
  "suspect_scan_stack [(''4 | Foo Crash'', [''ME-REQ|zzz'', ''2|foo'', ''NOT|bar''])]
     ''Unhandled exception'' ''foo x'' [] 10 = Inr ([], False)
   \<and> suspect_scan_stack [(''4 | Foo Crash'', [''ME-OPT|zzz'', ''2|foo'', ''NOT|bar''])]
     ''Unhandled exception'' ''foo x foo'' [] 10
     = Inr ([suspect_message ''Foo Crash'' ''4'' 10], True)"
proof -
  have k: "split_once '' | '' ''4 | Foo Crash'' = Some (''4'', ''Foo Crash'')" by simp
  have d: "isdecimal ''2''" by (simp add: isdecimal_def less_eq_char_def)
  have len: "length ''2'' \<le> 4300" by simp
  have n: "py_int ''2'' = 2" by (simp add: py_int_def)
  have l1: "[''ME-REQ|zzz'', ''2|foo'', ''NOT|bar''] = [''ME-REQ|zzz''] @ [''2'' @ ''|'' @ ''foo''] @ [''NOT|bar'']"
    and l2: "[''ME-OPT|zzz'', ''2|foo'', ''NOT|bar''] = [''ME-OPT|zzz''] @ [''2'' @ ''|'' @ ''foo''] @ [''NOT|bar'']"
    by simp_all
  have c1: "py_count ''foo x'' ''foo'' = 1" and c2: "py_count ''foo x foo'' ''foo'' = 2"
    by code_simp+
  have q1: "\<forall>x\<in>set [''ME-REQ|zzz''] \<union> set [''NOT|bar'']. unmatched_signal x ''Unhandled exception'' ''foo x''"
    by (simp add: unmatched_signal_def isdecimal_def less_eq_char_def)
  have q2: "\<forall>x\<in>set [''ME-OPT|zzz''] \<union> set [''NOT|bar'']. quiet_signal x ''Unhandled exception'' ''foo x foo''"
    by (simp add: quiet_signal_def isdecimal_def less_eq_char_def)
  note a = numeric_signal_threshold[OF k d len l1, where autoscan_report = "[]"
      and max_warn_length = 10 and crashlog_mainerror = "''Unhandled exception''"
      and segment_callstack_intact = "''foo x''", THEN conjunct1, THEN mp]
  note b = numeric_signal_threshold[OF k d len l2, where autoscan_report = "[]"
      and max_warn_length = 10 and crashlog_mainerror = "''Unhandled exception''"
      and segment_callstack_intact = "''foo x foo''", THEN conjunct2, THEN mp]
  have "suspect_scan_stack [(''4 | Foo Crash'', [''ME-REQ|zzz'', ''2|foo'', ''NOT|bar''])]
     ''Unhandled exception'' ''foo x'' [] 10 = Inr ([], False)"
    by (rule a) (simp add: q1 c1 n)
  moreover have "suspect_scan_stack [(''4 | Foo Crash'', [''ME-OPT|zzz'', ''2|foo'', ''NOT|bar''])]
     ''Unhandled exception'' ''foo x foo'' [] 10
     = Inr ([] @ [suspect_message ''Foo Crash'' ''4'' 10], True)"
    by (rule b) (simp add: q2 c2 n)
  ultimately show ?thesis by simp
qed

text \<open>
  Claim C6 as stated fails. The rule below has one numeric signal and an ME-REQ
  signal that does not match the main error; the call stack holds
  \<^verbatim>\<open>foo\<close> exactly twice, and the rule is not reported.
\<close>

theorem numeric_signal_unmatched_required_counterexample:
  "py_count ''foo x foo'' ''foo'' = py_int ''2''
   \<and> \<not> py_in ''zzz'' ''Unhandled exception''
   \<and> suspect_scan_stack [(''4 | Foo Crash'', [''ME-REQ|zzz'', ''2|foo''])]
        ''Unhandled exception'' ''foo x foo'' [] 10 = Inr ([], False)"
  by code_simp

section \<open>Properties of extract_formids\<close>

lemma extract_formids_append:
  "extract_formids (xs @ ys) = extract_formids xs @ extract_formids ys"
  by (induction xs) (auto split: option.splits simp: Let_def)

lemma upper_append: "upper (xs @ ys) = upper xs @ upper ys"
  by (simp add: upper_def)

lemma length_upper: "length (upper xs) = length xs"
  by (simp add: upper_def)

lemma of_char_upper_char:
  "(of_char (upper_char c) :: nat) =
     (if 97 \<le> (of_char c :: nat) \<and> (of_char c :: nat) \<le> 122 then of_char c - 32 else of_char c)"
proof (cases "97 \<le> (of_char c :: nat) \<and> (of_char c :: nat) \<le> 122")
  case True
  then have "(of_char c - (32::nat)) < 256" by linarith
  then have "(of_char c - (32::nat)) mod 256 = of_char c - 32" by (rule mod_less)
  with True show ?thesis by (simp add: upper_char_def less_eq_char_def)
next
  case False
  then show ?thesis by (auto simp: upper_char_def less_eq_char_def)
qed

lemma upper_char_hex: "ishex c \<Longrightarrow> isupperhex (upper_char c)"
  unfolding ishex_def isupperhex_def less_eq_char_def of_char_upper_char
  by auto

lemma upper_char_eq_nat:
  "upper_char c = d \<longleftrightarrow>
     (if 97 \<le> (of_char c :: nat) \<and> (of_char c :: nat) \<le> 122 then of_char c - 32 else of_char c)
       = (of_char d :: nat)"
  using of_char_upper_char[of c] by (metis of_char_eq_iff)

lemma not_space_F: "upper_char c = CHR ''F'' \<Longrightarrow> \<not> regex_space c"
  unfolding upper_char_eq_nat regex_space_def by (auto split: if_splits)

lemma not_space_0: "upper_char c = CHR ''0'' \<Longrightarrow> \<not> regex_space c"
  unfolding upper_char_eq_nat regex_space_def by (auto split: if_splits)

lemma upper_label: "upper ''Form ID:'' = ''FORM ID:''" and upper_0x: "upper ''0x'' = ''0X''"
  by code_simp+

lemma search_result:
  "formid_pattern_search line = Some g \<Longrightarrow> length g = 8 \<and> (\<forall>c\<in>set g. ishex c)"
  by (auto simp: formid_pattern_search_def Let_def split: if_splits)

lemma search_no_label:
  "\<not> caseless_startswith (dropWhile regex_space line) ''Form ID:'' \<Longrightarrow>
   formid_pattern_search line = None"
  by (simp add: formid_pattern_search_def)

lemma search_match:
  assumes w1: "\<forall>c\<in>set w1. regex_space c" and w2: "\<forall>c\<in>set w2. regex_space c"
    and lab: "upper label = ''FORM ID:''" and ox: "upper ox = ''0X''"
    and h: "length h = 8" "\<forall>c\<in>set h. ishex c"
  shows "formid_pattern_search (w1 @ label @ w2 @ ox @ h @ rest) = Some h"
proof -
  from lab have ll: "length label = 8" using length_upper[of label] by simp
  from lab obtain a l where label: "label = a # l" and a: "upper_char a = CHR ''F''"
    by (cases label) (auto simp: upper_def)
  from ox have lo: "length ox = 2" using length_upper[of ox] by simp
  from ox obtain b m where oxe: "ox = b # m" and b: "upper_char b = CHR ''0''"
    by (cases ox) (auto simp: upper_def)
  have d1: "dropWhile regex_space (w1 @ label @ w2 @ ox @ h @ rest) = label @ w2 @ ox @ h @ rest"
    using w1 not_space_F[OF a] by (simp add: label)
  have c1: "caseless_startswith (label @ w2 @ ox @ h @ rest) ''Form ID:''"
    by (simp add: caseless_startswith_def upper_label upper_append lab)
  have d2: "dropWhile regex_space (drop 8 (label @ w2 @ ox @ h @ rest)) = ox @ h @ rest"
    using w2 not_space_0[OF b] ll by (simp add: oxe)
  have c2: "caseless_startswith (ox @ h @ rest) ''0x''"
    by (simp add: caseless_startswith_def upper_0x upper_append ox)
  have t: "take 8 (drop 2 (ox @ h @ rest)) = h"
    using lo h(1) by simp
  show ?thesis
    unfolding formid_pattern_search_def Let_def d1 d2 t
    using c1 c2 h by simp
qed

lemma extract_formids_shape:
  "x \<in> set (extract_formids segment_callstack) \<Longrightarrow>
   \<exists>v. x = ''Form ID: '' @ v \<and> length v = 8 \<and> (\<forall>c\<in>set v. isupperhex c) \<and>
       \<not> startswith v ''FF''"
proof (induction segment_callstack)
  case Nil
  then show ?case by simp
next
  case (Cons line segment_callstack)
  show ?case
  proof (cases "formid_pattern_search line")
    case None
    with Cons show ?thesis by simp
  next
    case (Some g)
    from search_result[OF Some] have g: "length (upper g) = 8" "\<forall>c\<in>set (upper g). isupperhex c"
      by (auto simp: upper_def upper_char_hex)
    show ?thesis
    proof (cases "x \<in> set (extract_formids segment_callstack)")
      case True
      then show ?thesis by (rule Cons.IH)
    next
      case False
      with Cons.prems Some have "x = ''Form ID: '' @ upper g" "\<not> startswith (upper g) ''FF''"
        by (auto simp: Let_def split: if_splits)
      with g show ?thesis by blast
    qed
  qed
qed

text \<open>
  Claim C7. For every call stack segment: each entry that \<open>extract_formids\<close>
  returns is \<^verbatim>\<open>Form ID: \<close> followed by eight upper-case hexadecimal digits
  that do not start with \<^verbatim>\<open>FF\<close>; a line made of white space, the label
  \<^verbatim>\<open>Form ID:\<close> in any letter case, white space, \<^verbatim>\<open>0x\<close> in any case and
  eight hexadecimal digits contributes nothing when the upper-cased digits start
  with \<^verbatim>\<open>FF\<close> and otherwise exactly the entry with the upper-cased digits;
  a line that does not begin, after its leading white space, with the label
  contributes nothing. White space is what \<^verbatim>\<open>\s\<close> of the pattern matches.
\<close>

theorem extract_formids_spec:
  "(\<forall>x\<in>set (extract_formids segment_callstack).
      \<exists>v. x = ''Form ID: '' @ v \<and> length v = 8 \<and> (\<forall>c\<in>set v. isupperhex c) \<and>
          \<not> startswith v ''FF'')
   \<and> ((\<forall>c\<in>set w1. regex_space c) \<and> (\<forall>c\<in>set w2. regex_space c) \<and>
       upper label = ''FORM ID:'' \<and> upper ox = ''0X'' \<and>
       length h = 8 \<and> (\<forall>c\<in>set h. ishex c) \<longrightarrow>
       extract_formids (before @ [w1 @ label @ w2 @ ox @ h @ rest] @ after) =
         extract_formids before @
         (if startswith (upper h) ''FF'' then [] else [''Form ID: '' @ upper h]) @
         extract_formids after)
   \<and> (\<not> caseless_startswith (dropWhile regex_space line) ''Form ID:'' \<longrightarrow>
       extract_formids (before @ [line] @ after) =
         extract_formids before @ extract_formids after)"
proof (intro conjI ballI impI)
  fix x assume "x \<in> set (extract_formids segment_callstack)"
  then show "\<exists>v. x = ''Form ID: '' @ v \<and> length v = 8 \<and> (\<forall>c\<in>set v. isupperhex c) \<and>
          \<not> startswith v ''FF''"
    by (rule extract_formids_shape)
next
  assume a: "(\<forall>c\<in>set w1. regex_space c) \<and> (\<forall>c\<in>set w2. regex_space c) \<and>
       upper label = ''FORM ID:'' \<and> upper ox = ''0X'' \<and>
       length h = 8 \<and> (\<forall>c\<in>set h. ishex c)"
  then have "formid_pattern_search (w1 @ label @ w2 @ ox @ h @ rest) = Some h"
    by (intro search_match) simp_all
  then show "extract_formids (before @ [w1 @ label @ w2 @ ox @ h @ rest] @ after) =
         extract_formids before @
         (if startswith (upper h) ''FF'' then [] else [''Form ID: '' @ upper h]) @
         extract_formids after"
    by (simp add: extract_formids_append Let_def)
next
  assume "\<not> caseless_startswith (dropWhile regex_space line) ''Form ID:''"
  then have "formid_pattern_search line = None" by (rule search_no_label)
  then show "extract_formids (before @ [line] @ after) =
         extract_formids before @ extract_formids after"
    by (simp add: extract_formids_append)
qed

text \<open>
  The theorem at four lines: a form id in lower case that is kept, one that
  starts with \<^verbatim>\<open>ff\<close> and is dropped, a line where the label is not at the
  start, and a line where the label follows the separator 0x1C, which the
  pattern does not take for white space.
\<close>

theorem extract_formids_spec_witness:
  "extract_formids [''  Form ID: 0x0001f3a2 tail''] = [''Form ID: 0001F3A2'']
   \<and> extract_formids [''form id:0Xff00abcd''] = []
   \<and> extract_formids [''x Form ID: 0x00012345''] = []
   \<and> extract_formids [CHR 0x1C # ''Form ID: 0x00012345''] = []
   \<and> isupperhex CHR ''3''"
proof -
  have u1: "upper ''0001f3a2'' = ''0001F3A2''" and u2: "upper ''ff00abcd'' = ''FF00ABCD''"
    and u3: "upper ''form id:'' = ''FORM ID:''" and u4: "upper ''0X'' = ''0X''"
    by code_simp+
  have hx: "\<forall>c\<in>set ''0001f3a2''. ishex c" "\<forall>c\<in>set ''ff00abcd''. ishex c"
    by (simp_all add: ishex_def less_eq_char_def)
  have sp: "\<forall>c\<in>set ''  ''. regex_space c" "\<forall>c\<in>set '' ''. regex_space c" "\<forall>c\<in>set []. regex_space c"
    by (simp_all add: regex_space_def)
  have nl: "\<not> caseless_startswith (dropWhile regex_space ''x Form ID: 0x00012345'') ''Form ID:''"
    by code_simp
  have ns: "\<not> caseless_startswith (dropWhile regex_space (CHR 0x1C # ''Form ID: 0x00012345''))
              ''Form ID:''"
    by code_simp
  note t1 = extract_formids_spec[where segment_callstack = "[''  Form ID: 0x0001f3a2 tail'']"
      and ?w1.0 = "''  ''" and label = "''Form ID:''" and ?w2.0 = "'' ''" and ox = "''0x''"
      and h = "''0001f3a2''" and rest = "'' tail''" and before = "[]" and after = "[]"
      and line = "''x Form ID: 0x00012345''"]
  note t2 = extract_formids_spec[where segment_callstack = "[]"
      and ?w1.0 = "[]" and label = "''form id:''" and ?w2.0 = "[]" and ox = "''0X''"
      and h = "''ff00abcd''" and rest = "[]" and before = "[]" and after = "[]"
      and line = "CHR 0x1C # ''Form ID: 0x00012345''"]
  have a: "extract_formids [''  Form ID: 0x0001f3a2 tail''] = [''Form ID: 0001F3A2'']"
    using t1[THEN conjunct2, THEN conjunct1] sp hx
    by (simp add: upper_label upper_0x u1 startswith_def)
  have b: "extract_formids [''form id:0Xff00abcd''] = []"
    using t2[THEN conjunct2, THEN conjunct1] sp hx
    by (simp add: u2 u3 u4 startswith_def)
  have c: "extract_formids [''x Form ID: 0x00012345''] = []"
    using t1[THEN conjunct2, THEN conjunct2] nl by simp
  have e: "extract_formids [CHR 0x1C # ''Form ID: 0x00012345''] = []"
    using t2[THEN conjunct2, THEN conjunct2] ns by simp
  have "\<forall>x\<in>set (extract_formids [''  Form ID: 0x0001f3a2 tail'']).
      \<exists>v. x = ''Form ID: '' @ v \<and> length v = 8 \<and> (\<forall>c\<in>set v. isupperhex c) \<and>
          \<not> startswith v ''FF''"
    using t1[THEN conjunct1] .
  then have d: "isupperhex CHR ''3''" unfolding a by simp
  show ?thesis using a b c d e by simp
qed

section \<open>Properties of formid_match\<close>

lemma formid_plugin_loop_skip:
  "\<forall>p\<in>set skipped. snd p \<noteq> take 2 formid \<Longrightarrow>
   formid_plugin_loop get_entry show_formid_values formid_db_exists formid_full formid count
     (skipped @ crashlog_plugins) =
   formid_plugin_loop get_entry show_formid_values formid_db_exists formid_full formid count
     crashlog_plugins"
  by (induction skipped) auto

text \<open>
  Claim C3, as the code has it. For a form id group, let \<open>plugin\<close> be the first
  plugin whose stored status equals the first two hex digits of the id. When the
  lookup flag and the database flag are both true and the lookup returns a
  non-empty description, the line with the description and the count is emitted
  and the scan goes on with the plugins after it: a later plugin with the same
  status is reported for the group as well, and when no later plugin has that
  status the described line is all the group gets. On a miss, or when the lookup
  is disabled, the line without a description is emitted and nothing else for the
  group: the scan stops at this plugin.
\<close>

theorem formid_plugin_loop_first_match:
  assumes "\<forall>p\<in>set skipped. snd p \<noteq> take 2 formid"
    and "plugin_id = take 2 formid"
  shows "(show_formid_values \<and> formid_db_exists \<and>
          get_entry (drop 2 formid) plugin = Some report \<and> report \<noteq> [] \<longrightarrow>
          formid_plugin_loop get_entry show_formid_values formid_db_exists formid_full
            formid count (skipped @ (plugin, plugin_id) # later) =
          formid_line_described formid_full plugin report count #
          formid_plugin_loop get_entry show_formid_values formid_db_exists formid_full
            formid count later)
       \<and> (show_formid_values \<and> formid_db_exists \<and>
          get_entry (drop 2 formid) plugin = Some report \<and> report \<noteq> [] \<and>
          (\<forall>p\<in>set later. snd p \<noteq> take 2 formid) \<longrightarrow>
          formid_plugin_loop get_entry show_formid_values formid_db_exists formid_full
            formid count (skipped @ (plugin, plugin_id) # later) =
          [formid_line_described formid_full plugin report count])
       \<and> (\<not> (show_formid_values \<and> formid_db_exists) \<or>
          get_entry (drop 2 formid) plugin = None \<or>
          get_entry (drop 2 formid) plugin = Some [] \<longrightarrow>
          formid_plugin_loop get_entry show_formid_values formid_db_exists formid_full
            formid count (skipped @ (plugin, plugin_id) # later) =
          [formid_line_plain formid_full plugin count])"
proof (intro conjI impI)
  assume hit: "show_formid_values \<and> formid_db_exists \<and>
          get_entry (drop 2 formid) plugin = Some report \<and> report \<noteq> []"
  show "formid_plugin_loop get_entry show_formid_values formid_db_exists formid_full
            formid count (skipped @ (plugin, plugin_id) # later) =
          formid_line_described formid_full plugin report count #
          formid_plugin_loop get_entry show_formid_values formid_db_exists formid_full
            formid count later"
    unfolding formid_plugin_loop_skip[OF assms(1)]
    using assms(2) hit by simp
next
  assume hit: "show_formid_values \<and> formid_db_exists \<and>
          get_entry (drop 2 formid) plugin = Some report \<and> report \<noteq> [] \<and>
          (\<forall>p\<in>set later. snd p \<noteq> take 2 formid)"
  then have "\<forall>p\<in>set later. snd p \<noteq> take 2 formid" by simp
  from formid_plugin_loop_skip[OF this, of get_entry show_formid_values formid_db_exists
      formid_full count "[]"]
  have none: "formid_plugin_loop get_entry show_formid_values formid_db_exists formid_full
            formid count later = []"
    by simp
  show "formid_plugin_loop get_entry show_formid_values formid_db_exists formid_full
            formid count (skipped @ (plugin, plugin_id) # later) =
          [formid_line_described formid_full plugin report count]"
    unfolding formid_plugin_loop_skip[OF assms(1)]
    using assms(2) hit none by simp
next
  assume miss: "\<not> (show_formid_values \<and> formid_db_exists) \<or>
          get_entry (drop 2 formid) plugin = None \<or>
          get_entry (drop 2 formid) plugin = Some []"
  show "formid_plugin_loop get_entry show_formid_values formid_db_exists formid_full
            formid count (skipped @ (plugin, plugin_id) # later) =
          [formid_line_plain formid_full plugin count]"
    unfolding formid_plugin_loop_skip[OF assms(1)]
    using assms(2) miss by (cases "show_formid_values \<and> formid_db_exists") auto
qed

text \<open>
  The theorem at a plugin list with two plugins of status \<^verbatim>\<open>05\<close> after one of
  status \<^verbatim>\<open>01\<close>: with the lookup on, the first hit is followed by the scan of
  the rest; with the lookup off, one plain line is all.
\<close>

theorem formid_plugin_loop_first_match_witness:
  "formid_plugin_loop lookup_all True True ''Form ID: 0500ABCD'' ''0500ABCD'' 2
     [(''B.esp'', ''01''), (''A.esp'', ''05''), (''C.esp'', ''05'')]
   = formid_line_described ''Form ID: 0500ABCD'' ''A.esp'' ''Workbench'' 2 #
     formid_plugin_loop lookup_all True True ''Form ID: 0500ABCD'' ''0500ABCD'' 2
       [(''C.esp'', ''05'')]
   \<and> formid_plugin_loop lookup_all False True ''Form ID: 0500ABCD'' ''0500ABCD'' 2
     [(''B.esp'', ''01''), (''A.esp'', ''05''), (''C.esp'', ''05'')]
   = [formid_line_plain ''Form ID: 0500ABCD'' ''A.esp'' 2]"
proof -
  have sk: "\<forall>p\<in>set [(''B.esp'', ''01'')]. snd p \<noteq> take 2 ''0500ABCD''" by simp
  have id: "''05'' = take 2 ''0500ABCD''" by simp
  have hit: "True \<and> True \<and> lookup_all (drop 2 ''0500ABCD'') ''A.esp'' = Some ''Workbench''
      \<and> ''Workbench'' \<noteq> []"
    by (simp add: lookup_all_def)
  have off: "\<not> (False \<and> True) \<or> lookup_all (drop 2 ''0500ABCD'') ''A.esp'' = None
      \<or> lookup_all (drop 2 ''0500ABCD'') ''A.esp'' = Some []"
    by simp
  note a = formid_plugin_loop_first_match[OF sk id, where get_entry = lookup_all
      and show_formid_values = True and formid_db_exists = True and plugin = "''A.esp''"
      and report = "''Workbench''" and formid_full = "''Form ID: 0500ABCD''" and count = 2
      and later = "[(''C.esp'', ''05'')]", THEN conjunct1, THEN mp, OF hit]
  note b = formid_plugin_loop_first_match[OF sk id, where get_entry = lookup_all
      and show_formid_values = False and formid_db_exists = True and plugin = "''A.esp''"
      and report = "''Workbench''" and formid_full = "''Form ID: 0500ABCD''" and count = 2
      and later = "[(''C.esp'', ''05'')]", THEN conjunct2, THEN conjunct2, THEN mp, OF off]
  show ?thesis
    using a b by (simp only: append.simps) 
qed

text \<open>
  Claim C3 as stated fails: after the hit for \<^verbatim>\<open>A.esp\<close> the scan does not stop,
  and the group gets a second line for \<^verbatim>\<open>C.esp\<close>.
\<close>

theorem formid_match_hit_goes_on_counterexample:
  "formid_match lookup_all ''Buffout 4'' True True [''Form ID: 0500ABCD'']
     [(''A.esp'', ''05''), (''C.esp'', ''05'')] []
   = [''- Form ID: 0500ABCD | [A.esp] | Workbench | 1'' @ [CHR 0x0A],
      ''- Form ID: 0500ABCD | [C.esp] | Workbench | 1'' @ [CHR 0x0A],
      [CHR 0x0A] @
      ''[Last number counts how many times each Form ID shows up in the crash log.]'' @
      [CHR 0x0A],
      ''These Form IDs were caught by Buffout 4 and some of them might be related to this crash.'' @
      [CHR 0x0A],
      ''You can try searching any listed Form IDs in xEdit and see if they lead to relevant records.'' @
      [CHR 0x0A, CHR 0x0A]]"
  by code_simp

section \<open>Properties of check_disabled_settings\<close>

lemma disabled_fold:
  "foldl (\<lambda>report (setting_name, setting_value).
            if setting_value = BoolValue False \<and> setting_name \<notin> crashgen_ignore
            then append_or_extend [disabled_notice crashgen_name setting_name] report
            else report)
     autoscan_report crashgen =
   autoscan_report @
   map (disabled_notice crashgen_name)
     (map fst (filter (\<lambda>item. snd item = BoolValue False \<and> fst item \<notin> crashgen_ignore)
                 crashgen))"
  by (induction crashgen arbitrary: autoscan_report)
     (auto simp: append_or_extend_def)

lemma check_disabled_settings_eq:
  "check_disabled_settings crashgen_name crashgen autoscan_report crashgen_ignore =
   autoscan_report @
   map (disabled_notice crashgen_name)
     (map fst (filter (\<lambda>item. snd item = BoolValue False \<and> fst item \<notin> crashgen_ignore)
                 crashgen))"
  unfolding check_disabled_settings_def disabled_fold by simp

lemma disabled_notice_inj:
  "disabled_notice crashgen_name a = disabled_notice crashgen_name b \<longleftrightarrow> a = b"
  by (simp add: disabled_notice_def)

text \<open>
  Claim C10. The sweep appends to the report, in the order of the configuration,
  one notice for each key whose value is the boolean \<open>False\<close> and whose name is
  not in the ignore set, and nothing else. So the notice of a key is among the
  appended lines exactly when the key is in the configuration with the boolean
  \<open>False\<close> and is not ignored; an entry whose value is the integer 0 or the empty
  string changes nothing; an empty configuration leaves the report as it is.
\<close>

theorem check_disabled_settings_spec:
  "check_disabled_settings crashgen_name crashgen autoscan_report crashgen_ignore =
     autoscan_report @
     map (disabled_notice crashgen_name)
       (map fst (filter (\<lambda>item. snd item = BoolValue False \<and> fst item \<notin> crashgen_ignore)
                   crashgen))
   \<and> (disabled_notice crashgen_name k \<in>
        set (check_disabled_settings crashgen_name crashgen [] crashgen_ignore)
      \<longleftrightarrow> (k, BoolValue False) \<in> set crashgen \<and> k \<notin> crashgen_ignore)
   \<and> check_disabled_settings crashgen_name (before @ (k, IntValue 0) # after)
        autoscan_report crashgen_ignore =
      check_disabled_settings crashgen_name (before @ after) autoscan_report crashgen_ignore
   \<and> check_disabled_settings crashgen_name (before @ (k, StrValue []) # after)
        autoscan_report crashgen_ignore =
      check_disabled_settings crashgen_name (before @ after) autoscan_report crashgen_ignore
   \<and> check_disabled_settings crashgen_name [] autoscan_report crashgen_ignore =
      autoscan_report"
proof (intro conjI)
  show "(disabled_notice crashgen_name k \<in>
        set (check_disabled_settings crashgen_name crashgen [] crashgen_ignore))
      \<longleftrightarrow> ((k, BoolValue False) \<in> set crashgen \<and> k \<notin> crashgen_ignore)"
    unfolding check_disabled_settings_eq
    by (force simp: disabled_notice_inj image_iff)
qed (simp_all add: check_disabled_settings_eq)

theorem check_disabled_settings_spec_witness:
  "check_disabled_settings ''Buffout 4''
     [(''MemoryManager'', BoolValue False), (''MaxStdIO'', IntValue 0), (''Name'', StrValue []),
      (''F4EE'', BoolValue False), (''Achievements'', BoolValue True)] []
     (set [''F4EE''])
   = [disabled_notice ''Buffout 4'' ''MemoryManager'']"
  using check_disabled_settings_spec[where crashgen_name = "''Buffout 4''"
      and crashgen = "[(''MemoryManager'', BoolValue False), (''MaxStdIO'', IntValue 0),
        (''Name'', StrValue []), (''F4EE'', BoolValue False), (''Achievements'', BoolValue True)]"
      and autoscan_report = "[]" and crashgen_ignore = "set [''F4EE'']"]
  by simp

section \<open>Properties of move_unsolved_logs\<close>

text \<open>
  Claim C4 fails on the code. A failed scan of \<^verbatim>\<open>Crash Logs/crash-1.log\<close>
  with relocation configured writes the report next to the log and then renames
  the log itself to the report's name in the backup folder: the report stays
  where it was written, and no file named \<^verbatim>\<open>crash-1.log\<close> reaches the backup
  folder.
\<close>

theorem move_unsolved_logs_moves_log_under_report_name:
  "(case write_report_to_file [''Crash Logs'', ''crash-1.log''] [''line 1'', ''line 2'']
           True True [''CLASSIC'']
           (Map.empty([''Crash Logs'', ''crash-1.log''] \<mapsto> ''raw log'')) of
      Inl e \<Rightarrow> False
    | Inr fs \<Rightarrow>
        fs [''Crash Logs'', ''crash-1.log''] = None \<and>
        fs [''Crash Logs'', ''crash-1-AUTOSCAN.md''] = Some ''line 1line 2'' \<and>
        fs [''CLASSIC'', ''CLASSIC Backup'', ''Unsolved Logs'', ''crash-1-AUTOSCAN.md'']
          = Some ''raw log'' \<and>
        fs [''CLASSIC'', ''CLASSIC Backup'', ''Unsolved Logs'', ''crash-1.log''] = None)"
  by (simp add: write_report_to_file_def move_unsolved_logs_def with_name_def path_name_def
        path_stem_def rename_def Let_def)

end
